theory Spec2Isabelle
  imports Complex_Main "HOL-Library.AList"
begin

section \<open>Strings and character classes\<close>

text \<open>
  A JavaScript string is a sequence of UTF-16 code units. The regular expressions of
  \<^verbatim>\<open>app.js\<close> carry no \<^verbatim>\<open>u\<close> flag, so every character class tests one code unit
  at a time. A code unit is kept as a natural number (below 65536 in a real string; the
  theorems below hold for every list of naturals, hence for every string).
\<close>

type_synonym jstring = "nat list"

text \<open>ASCII literals of the source, written as HOL strings.\<close>

definition ascii :: "string \<Rightarrow> jstring" where
  "ascii s = map of_char s"

text \<open>
  The class \<^verbatim>\<open>\s\<close> and the characters removed by \<^verbatim>\<open>String.prototype.trim\<close>
  are the same set: WhiteSpace and LineTerminator of ECMAScript (TAB, LF, VT, FF, CR,
  SP, NBSP, U+1680, U+2000..U+200A, LS, PS, U+202F, U+205F, U+3000, U+FEFF).
\<close>

definition isSpace :: "nat \<Rightarrow> bool" where
  "isSpace c \<longleftrightarrow>
     (9 \<le> c \<and> c \<le> 13) \<or> c = 32 \<or> c = 160 \<or> c = 5760 \<or>
     (8192 \<le> c \<and> c \<le> 8202) \<or> c = 8232 \<or> c = 8233 \<or> c = 8239 \<or>
     c = 8287 \<or> c = 12288 \<or> c = 65279"

text \<open>\<^verbatim>\<open>[\u064B-\u065F\u0670\u06D6-\u06ED]\<close>: harakat and signs.\<close>

definition isHarakat :: "nat \<Rightarrow> bool" where
  "isHarakat c \<longleftrightarrow> (0x064B \<le> c \<and> c \<le> 0x065F) \<or> c = 0x0670 \<or> (0x06D6 \<le> c \<and> c \<le> 0x06ED)"

text \<open>\<^verbatim>\<open>[\u0610-\u061A\u06EE\u06EF]\<close>.\<close>

definition isMark :: "nat \<Rightarrow> bool" where
  "isMark c \<longleftrightarrow> (0x0610 \<le> c \<and> c \<le> 0x061A) \<or> c = 0x06EE \<or> c = 0x06EF"

text \<open>\<^verbatim>\<open>[\u0600-\u06FF]\<close>: the Arabic block.\<close>

definition isArabic :: "nat \<Rightarrow> bool" where
  "isArabic c \<longleftrightarrow> 0x0600 \<le> c \<and> c \<le> 0x06FF"

text \<open>\<^verbatim>\<open>.replace(/[\u0622\u0623\u0625]/g, '\u0627')\<close>\<close>

definition foldAlif :: "nat \<Rightarrow> nat" where
  "foldAlif c = (if c = 0x0622 \<or> c = 0x0623 \<or> c = 0x0625 then 0x0627 else c)"

text \<open>\<^verbatim>\<open>.replace(/[\u0649]/g, '\u064A')\<close>\<close>

definition foldAlifMaqsura :: "nat \<Rightarrow> nat" where
  "foldAlifMaqsura c = (if c = 0x0649 then 0x064A else c)"

text \<open>\<^verbatim>\<open>.replace(/[\u0629]/g, '\u0647')\<close>\<close>

definition foldTaMarbuta :: "nat \<Rightarrow> nat" where
  "foldTaMarbuta c = (if c = 0x0629 then 0x0647 else c)"

text \<open>\<^verbatim>\<open>.replace(/[^\u0600-\u06FF\s]/g, ' ')\<close>\<close>

definition otherToSpace :: "nat \<Rightarrow> nat" where
  "otherToSpace c = (if \<not> (isArabic c \<or> isSpace c) then 32 else c)"

text \<open>
  \<^verbatim>\<open>.replace(/\s+/g, ' ')\<close>: every maximal run of whitespace becomes one space.
\<close>

function collapseSpaces :: "jstring \<Rightarrow> jstring" where
  "collapseSpaces [] = []"
| "collapseSpaces (c # cs) =
     (if isSpace c then 32 # collapseSpaces (dropWhile isSpace cs)
      else c # collapseSpaces cs)"
  by pat_completeness auto
termination
  by (relation "measure length") (auto simp: le_imp_less_Suc length_dropWhile_le)

text \<open>\<^verbatim>\<open>.trim()\<close>\<close>

definition trim :: "jstring \<Rightarrow> jstring" where
  "trim s = rev (dropWhile isSpace (rev (dropWhile isSpace s)))"

section \<open>Text Normalizer\<close>

text \<open>
  \<^verbatim>\<open>normalizeArabic(text)\<close>, lines 164-175. The guard \<^verbatim>\<open>if (!text) return ''\<close>
  is the first branch: on a string it fires for the empty string only.
\<close>

definition normalizeArabic :: "jstring \<Rightarrow> jstring" where
  "normalizeArabic text =
     (if text = [] then []
      else trim (collapseSpaces (map otherToSpace (map foldTaMarbuta
             (map foldAlifMaqsura (map foldAlif
               (filter (\<lambda>c. \<not> isMark c) (filter (\<lambda>c. \<not> isHarakat c) text))))))))"

section \<open>N-gram Similarity Scorer\<close>

text \<open>
  \<^verbatim>\<open>toTrigrams(s)\<close>, lines 203-207. The loop runs for \<open>i = 0, 1, ...\<close> while
  \<open>i < s.length - 2\<close>; the bound is negative or zero for a string shorter than 3, and
  the truncated subtraction of \<open>nat\<close> gives the same empty range. \<^verbatim>\<open>s.slice(i, i + 3)\<close>
  is in range for each such \<open>i\<close>. The result is a JavaScript \<^verbatim>\<open>Set\<close>.
\<close>

definition slice :: "jstring \<Rightarrow> nat \<Rightarrow> nat \<Rightarrow> jstring" where
  "slice s i j = take (j - i) (drop i s)"

definition toTrigrams :: "jstring \<Rightarrow> jstring set" where
  "toTrigrams s = set (map (\<lambda>i. slice s i (i + 3)) [0..<length s - 2])"

text \<open>
  \<^verbatim>\<open>jaccard(aSet, bSet)\<close>, lines 209-214. \<open>inter\<close> counts the members of \<open>aSet\<close>
  that \<open>bSet\<close> has; \<^verbatim>\<open>aSet.size + bSet.size - inter || 1\<close> replaces a zero union by 1.
  The quotient of the two counts is a double in the source; it is kept as the exact
  rational here. Rounding to a double is monotone and separates two distinct quotients
  of counts below \<open>2^26\<close>, so comparisons between scores, and against 1, are those of
  the rationals for every string a browser can hold.
\<close>

definition jaccard :: "'a set \<Rightarrow> 'a set \<Rightarrow> rat" where
  "jaccard aSet bSet =
     (let inter = card {x \<in> aSet. x \<in> bSet};
          u = card aSet + card bSet - inter;
          union = (if u = 0 then 1 else u)
      in of_nat inter / of_nat union)"

section \<open>Numbers in template literals\<close>

text \<open>
  \<^verbatim>\<open>`${n}`\<close> for a number that holds an integer of magnitude below \<open>2^53\<close>: its
  decimal digits, with a leading minus sign when negative. (Such an integer is held
  exactly, and the shortest digits that read back as it are its own. The functions below
  are used for array indices and, in \<open>numToString\<close>, under that bound only.)
\<close>

function showNat :: "nat \<Rightarrow> jstring" where
  "showNat n = (if n < 10 then [48 + n] else showNat (n div 10) @ [48 + n mod 10])"
  by pat_completeness auto
termination
  by (relation "measure id") auto

declare showNat.simps [simp del]

definition showInt :: "int \<Rightarrow> jstring" where
  "showInt i = (if i < 0 then 45 # showNat (nat (- i)) else showNat (nat i))"

section \<open>Corpus Candidate Index\<close>

text \<open>
  The corpus as \<^verbatim>\<open>loadQuranCorpus\<close> builds it:
  \<^verbatim>\<open>{ surahs: [{ englishName, nameArabic, ayahs: [{ text }] }] }\<close>; every string field
  is a string (the loader substitutes \<^verbatim>\<open>''\<close>) and \<open>ayahs\<close> may be empty (the loader
  substitutes \<^verbatim>\<open>[]\<close>).
\<close>

record verse =
  v_text :: jstring

record surahEntry =
  englishName :: jstring
  nameArabic :: jstring
  s_ayahs :: "verse list"

record corpus =
  surahs :: "surahEntry list"

text \<open>
  A candidate \<^verbatim>\<open>{ surah, ayah, text }\<close> or \<^verbatim>\<open>{ surah, ayahStart, ayahEnd, text }\<close>;
  a property the object lacks is \<open>None\<close>.
\<close>

record candidate =
  c_surah :: jstring
  c_ayah :: "int option"
  c_ayahStart :: "int option"
  c_ayahEnd :: "int option"
  c_text :: jstring

text \<open>\<^verbatim>\<open>s.nameArabic || `\u0633\u0648\u0631\u0629 ${si + 1}`\<close>\<close>

definition arName :: "surahEntry \<Rightarrow> nat \<Rightarrow> jstring" where
  "arName s si =
     (if nameArabic s \<noteq> [] then nameArabic s
      else [0x0633, 0x0648, 0x0631, 0x0629, 32] @ showNat (si + 1))"

definition single :: "jstring \<Rightarrow> nat \<Rightarrow> jstring \<Rightarrow> candidate" where
  "single name i t1 =
     \<lparr>c_surah = name, c_ayah = Some (int i + 1), c_ayahStart = None, c_ayahEnd = None,
      c_text = t1\<rparr>"

definition pair :: "jstring \<Rightarrow> nat \<Rightarrow> jstring \<Rightarrow> jstring \<Rightarrow> candidate" where
  "pair name i t1 t2 =
     \<lparr>c_surah = name, c_ayah = None, c_ayahStart = Some (int i + 1),
      c_ayahEnd = Some (int i + 2), c_text = t1 @ [32] @ t2\<rparr>"

text \<open>
  The inner loop of \<^verbatim>\<open>buildCandidates\<close>, lines 220-229: \<open>i\<close> is the loop variable
  and \<open>candidates\<close> the array being pushed to. Both reads \<open>ayahs ! i\<close> and
  \<open>ayahs ! (i + 1)\<close> are guarded by the source's own length tests.
\<close>

function ayahLoop :: "jstring \<Rightarrow> verse list \<Rightarrow> nat \<Rightarrow> candidate list \<Rightarrow> candidate list" where
  "ayahLoop name ayahs i candidates =
     (if i < length ayahs then
        let t1 = v_text (ayahs ! i);
            candidates1 = candidates @ [single name i t1];
            candidates2 =
              (if i + 1 < length ayahs
               then candidates1 @ [pair name i t1 (v_text (ayahs ! (i + 1)))]
               else candidates1)
        in ayahLoop name ayahs (i + 1) candidates2
      else candidates)"
  by pat_completeness auto
termination
  by (relation "measure (\<lambda>(name, ayahs, i, candidates). length ayahs - i)") auto

declare ayahLoop.simps [simp del]

text \<open>\<^verbatim>\<open>corpus.surahs.forEach((s, si) => ...)\<close>, with \<open>si\<close> the index of \<open>s\<close>.\<close>

fun surahLoop :: "surahEntry list \<Rightarrow> nat \<Rightarrow> candidate list \<Rightarrow> candidate list" where
  "surahLoop [] si candidates = candidates"
| "surahLoop (s # ss) si candidates =
     surahLoop ss (si + 1) (ayahLoop (arName s si) (s_ayahs s) 0 candidates)"

definition buildCandidates :: "corpus \<Rightarrow> candidate list" where
  "buildCandidates c = surahLoop (surahs c) 0 []"

text \<open>
  The order the specification describes, written out: chapter by chapter, verse by
  verse, the single candidate of a verse and then, when a next verse exists in the same
  chapter, the pair that starts at it.
\<close>

definition verseCandidates :: "jstring \<Rightarrow> verse list \<Rightarrow> nat \<Rightarrow> candidate list" where
  "verseCandidates name ayahs i =
     single name i (v_text (ayahs ! i)) #
     (if i + 1 < length ayahs
      then [pair name i (v_text (ayahs ! i)) (v_text (ayahs ! (i + 1)))] else [])"

definition chapterCandidates :: "surahEntry \<Rightarrow> nat \<Rightarrow> candidate list" where
  "chapterCandidates s si =
     concat (map (verseCandidates (arName s si) (s_ayahs s)) [0..<length (s_ayahs s)])"

definition specCandidates :: "corpus \<Rightarrow> candidate list" where
  "specCandidates c =
     concat (map (\<lambda>(si, s). chapterCandidates s si) (enumerate 0 (surahs c)))"

text \<open>\<open>N\<close>, the total number of verses, and \<open>C\<close>, the number of chapters.\<close>

definition totalVerses :: "corpus \<Rightarrow> nat" where
  "totalVerses c = sum_list (map (\<lambda>s. length (s_ayahs s)) (surahs c))"

definition chapterCount :: "corpus \<Rightarrow> nat" where
  "chapterCount c = length (surahs c)"

section \<open>Local Matcher\<close>

text \<open>
  A match result \<^verbatim>\<open>{ surah, arabic, translation, ayah?, ayahStart?, ayahEnd?, ayahs? }\<close>.
  The Local Matcher builds it from a candidate, whose verse numbers are \<open>i + 1\<close> and
  \<open>i + 2\<close> for an array index \<open>i\<close>; they are kept as integers.
\<close>

record matchResult =
  surah :: jstring
  arabic :: jstring
  translation :: jstring
  ayah :: "int option"
  ayahStart :: "int option"
  ayahEnd :: "int option"
  ayahs :: "int list option"

text \<open>Truthiness of a numeric property: absent and \<open>0\<close> are falsy.\<close>

definition truthy :: "int option \<Rightarrow> bool" where
  "truthy v = (case v of None \<Rightarrow> False | Some n \<Rightarrow> n \<noteq> 0)"

text \<open>
  The loop of lines 242-248. \<open>best\<close> is \<^verbatim>\<open>null\<close> (\<open>None\<close>) or the object
  \<^verbatim>\<open>{ ...c, score }\<close>, kept as the candidate with its score. A candidate whose
  normalized text is empty is skipped (\<^verbatim>\<open>continue\<close>).
\<close>

fun scan :: "jstring set \<Rightarrow> candidate list \<Rightarrow> (candidate \<times> rat) option \<Rightarrow> (candidate \<times> rat) option" where
  "scan tSet [] best = best"
| "scan tSet (c # cs) best =
     (let cNorm = normalizeArabic (c_text c) in
      if cNorm = [] then scan tSet cs best
      else
        let cSet = toTrigrams cNorm;
            score = jaccard tSet cSet
        in (case best of
              None \<Rightarrow> scan tSet cs (Some (c, score))
            | Some (b, bscore) \<Rightarrow>
                if score > bscore then scan tSet cs (Some (c, score))
                else scan tSet cs best))"

text \<open>
  Lines 249-256: the result built from \<open>best\<close>. The threshold \<^verbatim>\<open>0.12\<close> is the
  rational \<open>3/25\<close>; the double nearest to it lies about \<open>4.4e-18\<close> below, closer than any
  quotient of two counts below \<open>2^26\<close> other than \<open>3/25\<close> itself.
\<close>

definition fromBest :: "(candidate \<times> rat) option \<Rightarrow> matchResult option" where
  "fromBest best =
     (case best of
        None \<Rightarrow> None
      | Some (b, score) \<Rightarrow>
          if score \<ge> 12 / 100 then
            let base = \<lparr>surah = c_surah b, arabic = c_text b, translation = [0x2014],
                        ayah = None, ayahStart = None, ayahEnd = None, ayahs = None\<rparr>
            in if truthy (c_ayah b) \<and> \<not> truthy (c_ayahEnd b)
               then Some (base\<lparr>ayah := c_ayah b\<rparr>)
               else if truthy (c_ayahStart b) \<and> truthy (c_ayahEnd b)
               then Some (base\<lparr>ayahStart := c_ayahStart b, ayahEnd := c_ayahEnd b\<rparr>)
               else Some base
          else None)"

text \<open>
  \<^verbatim>\<open>identifyByCorpus(transcript)\<close>, lines 234-257. The first argument is what
  \<^verbatim>\<open>await loadQuranCorpus()\<close> gave: \<open>None\<close> for \<^verbatim>\<open>null\<close>. The function returns
  the list of candidates its loop visited together with its result, so that a return
  before line 241 shows as an empty list.
\<close>

definition identifyByCorpusRun :: "corpus option \<Rightarrow> jstring \<Rightarrow> candidate list \<times> matchResult option" where
  "identifyByCorpusRun loaded transcript =
     (case loaded of
        None \<Rightarrow> ([], None)
      | Some c \<Rightarrow>
          let T = normalizeArabic transcript in
          if T = [] then ([], None)
          else
            let tSet = toTrigrams T;
                candidates = buildCandidates c
            in (candidates, fromBest (scan tSet candidates None)))"

definition identifyByCorpus :: "corpus option \<Rightarrow> jstring \<Rightarrow> matchResult option" where
  "identifyByCorpus loaded transcript = snd (identifyByCorpusRun loaded transcript)"

section \<open>Remote Identifier: the parsed response\<close>

text \<open>
  What \<^verbatim>\<open>JSON.parse\<close> returns. A JavaScript number is a finite double, kept as the
  rational it denotes, an infinity (an overflowing literal such as \<^verbatim>\<open>1e999\<close>), or
  \<open>NaN\<close>. An object is the list of its own properties, each key once.
\<close>

datatype jsnum = Finite rat | PosInf | NegInf | NaN

datatype json =
    JNull
  | JBool bool
  | JNum jsnum
  | JStr jstring
  | JArr "json list"
  | JObj "(jstring \<times> json) list"

datatype error = TypeError

text \<open>Truthiness (\<^verbatim>\<open>ToBoolean\<close>): \<open>0\<close> and \<open>NaN\<close>, \<^verbatim>\<open>null\<close>, \<^verbatim>\<open>false\<close> and \<^verbatim>\<open>''\<close> are falsy.\<close>

definition truthyNum :: "jsnum \<Rightarrow> bool" where
  "truthyNum n = (case n of Finite q \<Rightarrow> q \<noteq> 0 | PosInf \<Rightarrow> True | NegInf \<Rightarrow> True | NaN \<Rightarrow> False)"

definition truthyV :: "json \<Rightarrow> bool" where
  "truthyV v =
     (case v of
        JNull \<Rightarrow> False
      | JBool b \<Rightarrow> b
      | JNum n \<Rightarrow> truthyNum n
      | JStr s \<Rightarrow> s \<noteq> []
      | JArr _ \<Rightarrow> True
      | JObj _ \<Rightarrow> True)"

text \<open>
  \<^verbatim>\<open>parsed.key\<close> for a value other than \<^verbatim>\<open>null\<close>: the property of an object, and
  \<^verbatim>\<open>undefined\<close> (\<open>None\<close>) when the object lacks it or the value is an array, a string,
  a number or a boolean (none of which has a property of the names read here).
\<close>

definition getProp :: "json \<Rightarrow> jstring \<Rightarrow> json option" where
  "getProp parsed key = (case parsed of JObj kvs \<Rightarrow> map_of kvs key | _ \<Rightarrow> None)"

text \<open>\<^verbatim>\<open>a || d\<close> where \<open>a\<close> may be \<^verbatim>\<open>undefined\<close> and \<open>d\<close> is a value.\<close>

definition orElse :: "json option \<Rightarrow> json \<Rightarrow> json" where
  "orElse a d = (case a of None \<Rightarrow> d | Some v \<Rightarrow> if truthyV v then v else d)"

text \<open>
  \<^verbatim>\<open>Number(v)\<close>: \<^verbatim>\<open>null\<close> is \<open>0\<close>, a boolean \<open>0\<close> or \<open>1\<close>, a number itself. For a
  string, and for an array or object (converted to a string first), the result is that
  of the built-in string-to-number conversion, which is the parameter \<open>strToNum\<close>.
\<close>

definition toNumber :: "(json \<Rightarrow> jsnum) \<Rightarrow> json \<Rightarrow> jsnum" where
  "toNumber strToNum v =
     (case v of
        JNull \<Rightarrow> Finite 0
      | JBool b \<Rightarrow> Finite (if b then 1 else 0)
      | JNum n \<Rightarrow> n
      | _ \<Rightarrow> strToNum v)"

text \<open>\<^verbatim>\<open>Number(parsed.k1 || parsed.k2 || 0) || 0\<close>\<close>

definition numField :: "(json \<Rightarrow> jsnum) \<Rightarrow> json \<Rightarrow> jstring \<Rightarrow> jstring \<Rightarrow> jsnum" where
  "numField strToNum parsed k1 k2 =
     (let n = toNumber strToNum
                (orElse (getProp parsed k1) (orElse (getProp parsed k2) (JNum (Finite 0))))
      in if truthyNum n then n else Finite 0)"

text \<open>
  \<^verbatim>\<open>Array.isArray(parsed.ayahs) ? parsed.ayahs.map((n) => Number(n)).filter(Boolean) : null\<close>
\<close>

definition ayahsField :: "(json \<Rightarrow> jsnum) \<Rightarrow> json \<Rightarrow> jsnum list option" where
  "ayahsField strToNum parsed =
     (case getProp parsed (ascii ''ayahs'') of
        Some (JArr l) \<Rightarrow> Some (filter truthyNum (map (toNumber strToNum) l))
      | _ \<Rightarrow> None)"

text \<open>The object the Remote Identifier returns; a property it lacks is \<open>None\<close>.\<close>

record remoteResult =
  r_surah :: json
  r_arabic :: json
  r_translation :: json
  r_ayah :: "jsnum option"
  r_ayahStart :: "jsnum option"
  r_ayahEnd :: "jsnum option"
  r_ayahs :: "jsnum list option"

text \<open>
  \<^verbatim>\<open>identifySurahFromTranscript\<close> from line 558 on. The second argument is the outcome
  of \<^verbatim>\<open>JSON.parse(jsonText)\<close>: \<open>None\<close> when it threw, and the function then returns
  \<^verbatim>\<open>null\<close>. Reading a property of \<^verbatim>\<open>null\<close> throws a \<open>TypeError\<close>.
\<close>

definition identifySurahFromTranscript ::
    "(json \<Rightarrow> jsnum) \<Rightarrow> json option \<Rightarrow> jstring \<Rightarrow> error + remoteResult option" where
  "identifySurahFromTranscript strToNum parseResult transcript =
     (case parseResult of
        None \<Rightarrow> Inr None
      | Some parsed \<Rightarrow>
          if parsed = JNull then Inl TypeError
          else
            let surah = orElse (getProp parsed (ascii ''surah''))
                          (orElse (getProp parsed (ascii ''chapter'')) (JStr [0x2014]));
                ayah = numField strToNum parsed (ascii ''ayah'') (ascii ''verse'');
                ayahStart = numField strToNum parsed (ascii ''ayahStart'') (ascii ''verseStart'');
                ayahEnd = numField strToNum parsed (ascii ''ayahEnd'') (ascii ''verseEnd'');
                ayahs = ayahsField strToNum parsed;
                base = \<lparr>r_surah = surah,
                        r_arabic = orElse (getProp parsed (ascii ''arabic'')) (JStr transcript),
                        r_translation =
                          orElse (getProp parsed (ascii ''translation'')) (JStr [0x2014]),
                        r_ayah = None, r_ayahStart = None, r_ayahEnd = None, r_ayahs = None\<rparr>
            in if (case ayahs of None \<Rightarrow> False | Some l \<Rightarrow> l \<noteq> [])
               then Inr (Some (base\<lparr>r_ayahs := ayahs\<rparr>))
               else if truthyNum ayahStart \<and> truthyNum ayahEnd
               then Inr (Some (base\<lparr>r_ayahStart := Some ayahStart, r_ayahEnd := Some ayahEnd\<rparr>))
               else Inr (Some (base\<lparr>r_ayah := Some ayah\<rparr>)))"


section \<open>Result Formatter\<close>

text \<open>
  \<^verbatim>\<open>toResults(result)\<close>, the only caller of \<^verbatim>\<open>formatAyahLabel\<close>, receives
  \<^verbatim>\<open>match || identifySurahFromTranscript(transcript)\<close>: a result of the Local Matcher
  or a result of the Remote Identifier.
\<close>

datatype result = Local matchResult | Remote remoteResult

text \<open>The four properties \<^verbatim>\<open>formatAyahLabel\<close> reads, as JavaScript numbers.\<close>

definition fromInt :: "int \<Rightarrow> jsnum" where
  "fromInt n = Finite (of_int n)"

definition resAyahs :: "result \<Rightarrow> jsnum list option" where
  "resAyahs res =
     (case res of Local m \<Rightarrow> map_option (map fromInt) (ayahs m) | Remote r \<Rightarrow> r_ayahs r)"

definition resAyahStart :: "result \<Rightarrow> jsnum option" where
  "resAyahStart res =
     (case res of Local m \<Rightarrow> map_option fromInt (ayahStart m) | Remote r \<Rightarrow> r_ayahStart r)"

definition resAyahEnd :: "result \<Rightarrow> jsnum option" where
  "resAyahEnd res =
     (case res of Local m \<Rightarrow> map_option fromInt (ayahEnd m) | Remote r \<Rightarrow> r_ayahEnd r)"

definition resAyah :: "result \<Rightarrow> jsnum option" where
  "resAyah res =
     (case res of Local m \<Rightarrow> map_option fromInt (ayah m) | Remote r \<Rightarrow> r_ayah r)"

text \<open>Truthiness of a numeric property that may be absent.\<close>

definition truthyOpt :: "jsnum option \<Rightarrow> bool" where
  "truthyOpt v = (case v of None \<Rightarrow> False | Some n \<Rightarrow> truthyNum n)"

text \<open>
  The comparator \<^verbatim>\<open>(a, b) => a - b\<close> returns a positive number: \<open>a\<close> is then moved
  behind \<open>b\<close>. The difference of two equal infinities, and any difference with \<open>NaN\<close>,
  is \<open>NaN\<close>, which the sort reads as \<open>0\<close>.
\<close>

fun comparePositive :: "jsnum \<Rightarrow> jsnum \<Rightarrow> bool" where
  "comparePositive (Finite x) (Finite y) = (x > y)"
| "comparePositive (Finite x) NegInf = True"
| "comparePositive PosInf (Finite y) = True"
| "comparePositive PosInf NegInf = True"
| "comparePositive _ _ = False"

text \<open>
  \<^verbatim>\<open>[...result.ayahs].sort((a, b) => a - b)\<close>: the stable sort by the comparator,
  as insertion from the right. (On a list that holds \<open>NaN\<close> the comparator is not
  consistent and ECMAScript leaves the order to the implementation; the properties
  below are about lists without \<open>NaN\<close>.)
\<close>

fun jsInsert :: "jsnum \<Rightarrow> jsnum list \<Rightarrow> jsnum list" where
  "jsInsert a [] = [a]"
| "jsInsert a (b # bs) = (if comparePositive a b then b # jsInsert a bs else a # b # bs)"

definition jsSort :: "jsnum list \<Rightarrow> jsnum list" where
  "jsSort l = foldr jsInsert l []"

text \<open>
  \<^verbatim>\<open>`${n}`\<close> for a number: \<open>NaN\<close>, \<open>Infinity\<close>, \<open>-Infinity\<close>; the decimal digits of
  an integer of magnitude below \<open>2^53\<close>; for every other finite number the digits the
  built-in conversion chooses, which is the parameter \<open>digits\<close>.
\<close>

definition numToString :: "(rat \<Rightarrow> jstring) \<Rightarrow> jsnum \<Rightarrow> jstring" where
  "numToString digits n =
     (case n of
        NaN \<Rightarrow> ascii ''NaN''
      | PosInf \<Rightarrow> ascii ''Infinity''
      | NegInf \<Rightarrow> 45 # ascii ''Infinity''
      | Finite q \<Rightarrow>
          if of_int \<lfloor>q\<rfloor> = q \<and> \<bar>q\<bar> < 2 ^ 53 then showInt \<lfloor>q\<rfloor> else digits q)"

text \<open>
  \<^verbatim>\<open>formatAyahLabel(result)\<close>, lines 574-586. \<open>sorted[0]\<close> and
  \<open>sorted[sorted.length - 1]\<close> are read only after the length test of line 575, so the
  list is not empty there.
\<close>

definition rangeLabel :: "(rat \<Rightarrow> jstring) \<Rightarrow> jsnum \<Rightarrow> jsnum \<Rightarrow> jstring" where
  "rangeLabel digits a b =
     [0x0622, 0x064A, 0x0627, 0x062A, 32] @ numToString digits a @ [0x2013]
       @ numToString digits b"

definition singleLabel :: "(rat \<Rightarrow> jstring) \<Rightarrow> jsnum \<Rightarrow> jstring" where
  "singleLabel digits a = [0x0622, 0x064A, 0x0629, 32] @ numToString digits a"

definition formatAyahLabel :: "(rat \<Rightarrow> jstring) \<Rightarrow> result \<Rightarrow> jstring" where
  "formatAyahLabel digits res =
     (case resAyahs res of
        Some (x # xs) \<Rightarrow>
          let sorted = jsSort (x # xs) in
          if truthyNum (hd sorted) \<and> truthyNum (last sorted) \<and> length sorted > 1
          then rangeLabel digits (hd sorted) (last sorted)
          else singleLabel digits (hd sorted)
      | _ \<Rightarrow>
          (case (resAyahStart res, resAyahEnd res) of
             (Some s, Some e) \<Rightarrow>
               if truthyNum s \<and> truthyNum e then rangeLabel digits s e
               else singleLabel digits
                      (case resAyah res of
                         Some a \<Rightarrow> if truthyNum a then a else Finite 0
                       | None \<Rightarrow> Finite 0)
           | _ \<Rightarrow>
               singleLabel digits
                 (case resAyah res of
                    Some a \<Rightarrow> if truthyNum a then a else Finite 0
                  | None \<Rightarrow> Finite 0)))"

section \<open>Verse-Name Resolver\<close>

text \<open>\<open>SURAH_ARABIC_LIST\<close>, lines 674-687: the 114 names, in code units.\<close>

definition SURAH_ARABIC_LIST :: "jstring list" where
  "SURAH_ARABIC_LIST =
     [
      [0x0627, 0x0644, 0x0641, 0x0627, 0x062A, 0x062D, 0x0629],
      [0x0627, 0x0644, 0x0628, 0x0642, 0x0631, 0x0629],
      [0x0622, 0x0644, 0x0020, 0x0639, 0x0645, 0x0631, 0x0627, 0x0646],
      [0x0627, 0x0644, 0x0646, 0x0633, 0x0627, 0x0621],
      [0x0627, 0x0644, 0x0645, 0x0627, 0x0626, 0x062F, 0x0629],
      [0x0627, 0x0644, 0x0623, 0x0646, 0x0639, 0x0627, 0x0645],
      [0x0627, 0x0644, 0x0623, 0x0639, 0x0631, 0x0627, 0x0641],
      [0x0627, 0x0644, 0x0623, 0x0646, 0x0641, 0x0627, 0x0644],
      [0x0627, 0x0644, 0x062A, 0x0648, 0x0628, 0x0629],
      [0x064A, 0x0648, 0x0646, 0x0633],
      [0x0647, 0x0648, 0x062F],
      [0x064A, 0x0648, 0x0633, 0x0641],
      [0x0627, 0x0644, 0x0631, 0x0639, 0x062F],
      [0x0625, 0x0628, 0x0631, 0x0627, 0x0647, 0x064A, 0x0645],
      [0x0627, 0x0644, 0x062D, 0x062C, 0x0631],
      [0x0627, 0x0644, 0x0646, 0x062D, 0x0644],
      [0x0627, 0x0644, 0x0625, 0x0633, 0x0631, 0x0627, 0x0621],
      [0x0627, 0x0644, 0x0643, 0x0647, 0x0641],
      [0x0645, 0x0631, 0x064A, 0x0645],
      [0x0637, 0x0647],
      [0x0627, 0x0644, 0x0623, 0x0646, 0x0628, 0x064A, 0x0627, 0x0621],
      [0x0627, 0x0644, 0x062D, 0x062C],
      [0x0627, 0x0644, 0x0645, 0x0624, 0x0645, 0x0646, 0x0648, 0x0646],
      [0x0627, 0x0644, 0x0646, 0x0648, 0x0631],
      [0x0627, 0x0644, 0x0641, 0x0631, 0x0642, 0x0627, 0x0646],
      [0x0627, 0x0644, 0x0634, 0x0639, 0x0631, 0x0627, 0x0621],
      [0x0627, 0x0644, 0x0646, 0x0645, 0x0644],
      [0x0627, 0x0644, 0x0642, 0x0635, 0x0635],
      [0x0627, 0x0644, 0x0639, 0x0646, 0x0643, 0x0628, 0x0648, 0x062A],
      [0x0627, 0x0644, 0x0631, 0x0648, 0x0645],
      [0x0644, 0x0642, 0x0645, 0x0627, 0x0646],
      [0x0627, 0x0644, 0x0633, 0x062C, 0x062F, 0x0629],
      [0x0627, 0x0644, 0x0623, 0x062D, 0x0632, 0x0627, 0x0628],
      [0x0633, 0x0628, 0x0625],
      [0x0641, 0x0627, 0x0637, 0x0631],
      [0x064A, 0x0633],
      [0x0627, 0x0644, 0x0635, 0x0627, 0x0641, 0x0627, 0x062A],
      [0x0635],
      [0x0627, 0x0644, 0x0632, 0x0645, 0x0631],
      [0x063A, 0x0627, 0x0641, 0x0631],
      [0x0641, 0x0635, 0x0644, 0x062A],
      [0x0627, 0x0644, 0x0634, 0x0648, 0x0631, 0x0649],
      [0x0627, 0x0644, 0x0632, 0x062E, 0x0631, 0x0641],
      [0x0627, 0x0644, 0x062F, 0x062E, 0x0627, 0x0646],
      [0x0627, 0x0644, 0x062C, 0x0627, 0x062B, 0x064A, 0x0629],
      [0x0627, 0x0644, 0x0623, 0x062D, 0x0642, 0x0627, 0x0641],
      [0x0645, 0x062D, 0x0645, 0x062F],
      [0x0627, 0x0644, 0x0641, 0x062A, 0x062D],
      [0x0627, 0x0644, 0x062D, 0x062C, 0x0631, 0x0627, 0x062A],
      [0x0642],
      [0x0627, 0x0644, 0x0630, 0x0627, 0x0631, 0x064A, 0x0627, 0x062A],
      [0x0627, 0x0644, 0x0637, 0x0648, 0x0631],
      [0x0627, 0x0644, 0x0646, 0x062C, 0x0645],
      [0x0627, 0x0644, 0x0642, 0x0645, 0x0631],
      [0x0627, 0x0644, 0x0631, 0x062D, 0x0645, 0x0646],
      [0x0627, 0x0644, 0x0648, 0x0627, 0x0642, 0x0639, 0x0629],
      [0x0627, 0x0644, 0x062D, 0x062F, 0x064A, 0x062F],
      [0x0627, 0x0644, 0x0645, 0x062C, 0x0627, 0x062F, 0x0644, 0x0629],
      [0x0627, 0x0644, 0x062D, 0x0634, 0x0631],
      [0x0627, 0x0644, 0x0645, 0x0645, 0x062A, 0x062D, 0x0646, 0x0629],
      [0x0627, 0x0644, 0x0635, 0x0641],
      [0x0627, 0x0644, 0x062C, 0x0645, 0x0639, 0x0629],
      [0x0627, 0x0644, 0x0645, 0x0646, 0x0627, 0x0641, 0x0642, 0x0648, 0x0646],
      [0x0627, 0x0644, 0x062A, 0x063A, 0x0627, 0x0628, 0x0646],
      [0x0627, 0x0644, 0x0637, 0x0644, 0x0627, 0x0642],
      [0x0627, 0x0644, 0x062A, 0x062D, 0x0631, 0x064A, 0x0645],
      [0x0627, 0x0644, 0x0645, 0x0644, 0x0643],
      [0x0627, 0x0644, 0x0642, 0x0644, 0x0645],
      [0x0627, 0x0644, 0x062D, 0x0627, 0x0642, 0x0629],
      [0x0627, 0x0644, 0x0645, 0x0639, 0x0627, 0x0631, 0x062C],
      [0x0646, 0x0648, 0x062D],
      [0x0627, 0x0644, 0x062C, 0x0646],
      [0x0627, 0x0644, 0x0645, 0x0632, 0x0645, 0x0644],
      [0x0627, 0x0644, 0x0645, 0x062F, 0x062B, 0x0631],
      [0x0627, 0x0644, 0x0642, 0x064A, 0x0627, 0x0645, 0x0629],
      [0x0627, 0x0644, 0x0625, 0x0646, 0x0633, 0x0627, 0x0646],
      [0x0627, 0x0644, 0x0645, 0x0631, 0x0633, 0x0644, 0x0627, 0x062A],
      [0x0627, 0x0644, 0x0646, 0x0628, 0x0625],
      [0x0627, 0x0644, 0x0646, 0x0627, 0x0632, 0x0639, 0x0627, 0x062A],
      [0x0639, 0x0628, 0x0633],
      [0x0627, 0x0644, 0x062A, 0x0643, 0x0648, 0x064A, 0x0631],
      [0x0627, 0x0644, 0x0625, 0x0646, 0x0641, 0x0637, 0x0627, 0x0631],
      [0x0627, 0x0644, 0x0645, 0x0637, 0x0641, 0x0641, 0x064A, 0x0646],
      [0x0627, 0x0644, 0x0625, 0x0646, 0x0634, 0x0642, 0x0627, 0x0642],
      [0x0627, 0x0644, 0x0628, 0x0631, 0x0648, 0x062C],
      [0x0627, 0x0644, 0x0637, 0x0627, 0x0631, 0x0642],
      [0x0627, 0x0644, 0x0623, 0x0639, 0x0644, 0x0649],
      [0x0627, 0x0644, 0x063A, 0x0627, 0x0634, 0x064A, 0x0629],
      [0x0627, 0x0644, 0x0641, 0x062C, 0x0631],
      [0x0627, 0x0644, 0x0628, 0x0644, 0x062F],
      [0x0627, 0x0644, 0x0634, 0x0645, 0x0633],
      [0x0627, 0x0644, 0x0644, 0x064A, 0x0644],
      [0x0627, 0x0644, 0x0636, 0x062D, 0x0649],
      [0x0627, 0x0644, 0x0634, 0x0631, 0x062D],
      [0x0627, 0x0644, 0x062A, 0x064A, 0x0646],
      [0x0627, 0x0644, 0x0639, 0x0644, 0x0642],
      [0x0627, 0x0644, 0x0642, 0x062F, 0x0631],
      [0x0627, 0x0644, 0x0628, 0x064A, 0x0646, 0x0629],
      [0x0627, 0x0644, 0x0632, 0x0644, 0x0632, 0x0644, 0x0629],
      [0x0627, 0x0644, 0x0639, 0x0627, 0x062F, 0x064A, 0x0627, 0x062A],
      [0x0627, 0x0644, 0x0642, 0x0627, 0x0631, 0x0639, 0x0629],
      [0x0627, 0x0644, 0x062A, 0x0643, 0x0627, 0x062B, 0x0631],
      [0x0627, 0x0644, 0x0639, 0x0635, 0x0631],
      [0x0627, 0x0644, 0x0647, 0x0645, 0x0632, 0x0629],
      [0x0627, 0x0644, 0x0641, 0x064A, 0x0644],
      [0x0642, 0x0631, 0x064A, 0x0634],
      [0x0627, 0x0644, 0x0645, 0x0627, 0x0639, 0x0648, 0x0646],
      [0x0627, 0x0644, 0x0643, 0x0648, 0x062B, 0x0631],
      [0x0627, 0x0644, 0x0643, 0x0627, 0x0641, 0x0631, 0x0648, 0x0646],
      [0x0627, 0x0644, 0x0646, 0x0635, 0x0631],
      [0x0627, 0x0644, 0x0645, 0x0633, 0x062F],
      [0x0627, 0x0644, 0x0625, 0x062E, 0x0644, 0x0627, 0x0635],
      [0x0627, 0x0644, 0x0641, 0x0644, 0x0642],
      [0x0627, 0x0644, 0x0646, 0x0627, 0x0633]
     ]"

text \<open>
  \<^verbatim>\<open>s.replace(/^\u0633\u0648\u0631\u0647?\s+/i, '')\<close>: at the start of the string, the three
  letters, then the fourth letter if it is there, then one or more whitespace characters
  (as many as there are). When the fourth letter is taken and no whitespace follows,
  retrying without it fails too, since the fourth letter is not whitespace; the string
  is then left as it is. The letters have no case, so the flag \<^verbatim>\<open>i\<close> changes nothing.
\<close>

definition stripSurahPrefix :: "jstring \<Rightarrow> jstring" where
  "stripSurahPrefix s =
     (if take 3 s = [0x0633, 0x0648, 0x0631] then
        let rest = drop 3 s;
            rest1 = (case rest of c # cs \<Rightarrow> if c = 0x0647 then cs else rest | [] \<Rightarrow> rest)
        in (case rest1 of
              c # cs \<Rightarrow> if isSpace c then dropWhile isSpace rest1 else s
            | [] \<Rightarrow> s)
      else s)"

text \<open>\<^verbatim>\<open>normalizeSurahNameForMatch(name)\<close>, lines 689-693.\<close>

definition normalizeSurahNameForMatch :: "jstring \<Rightarrow> jstring" where
  "normalizeSurahNameForMatch name = stripSurahPrefix (normalizeArabic name)"

text \<open>
  \<^verbatim>\<open>new Map(pairs)\<close>: the entries in insertion order; a key that comes again keeps its
  place and takes the new value.
\<close>

definition mkMap :: "('k \<times> 'v) list \<Rightarrow> ('k \<times> 'v) list" where
  "mkMap pairs = foldl (\<lambda>m (k, v). AList.update k v m) [] pairs"

definition ARABIC_NORM_TO_NUM :: "(jstring \<times> nat) list" where
  "ARABIC_NORM_TO_NUM =
     mkMap (map (\<lambda>(i, n). (normalizeSurahNameForMatch n, i + 1)) (enumerate 0 SURAH_ARABIC_LIST))"

text \<open>The pairs of \<open>englishToNum\<close>, lines 711-724.\<close>

definition englishPairs :: "(jstring \<times> nat) list" where
  "englishPairs =
     [
      (ascii ''Al-Fatihah'', 1),
      (ascii ''Al-Baqarah'', 2),
      (ascii ''Ali '' @ [34] @ ascii ''Imran'', 3),
      (ascii ''An-Nisa'', 4),
      (ascii ''Al-Ma'' @ [39] @ ascii ''idah'', 5),
      (ascii ''Al-An'' @ [39] @ ascii ''am'', 6),
      (ascii ''Al-A'' @ [39] @ ascii ''raf'', 7),
      (ascii ''Al-Anfal'', 8),
      (ascii ''At-Tawbah'', 9),
      (ascii ''Yunus'', 10),
      (ascii ''Hud'', 11),
      (ascii ''Yusuf'', 12),
      (ascii ''Ar-Ra'' @ [39] @ ascii ''d'', 13),
      (ascii ''Ibrahim'', 14),
      (ascii ''Al-Hijr'', 15),
      (ascii ''An-Nahl'', 16),
      (ascii ''Al-Isra'', 17),
      (ascii ''Al-Kahf'', 18),
      (ascii ''Maryam'', 19),
      (ascii ''Ta-Ha'', 20),
      (ascii ''Al-Anbiya'', 21),
      (ascii ''Al-Hajj'', 22),
      (ascii ''Al-Mu'' @ [39] @ ascii ''minun'', 23),
      (ascii ''An-Nur'', 24),
      (ascii ''Al-Furqan'', 25),
      (ascii ''Ash-Shu'' @ [39] @ ascii ''ara'', 26),
      (ascii ''An-Naml'', 27),
      (ascii ''Al-Qasas'', 28),
      (ascii ''Al-'' @ [39] @ ascii ''Ankabut'', 29),
      (ascii ''Ar-Rum'', 30),
      (ascii ''Luqman'', 31),
      (ascii ''As-Sajdah'', 32),
      (ascii ''Al-Ahzab'', 33),
      (ascii ''Saba'', 34),
      (ascii ''Fatir'', 35),
      (ascii ''Ya-Sin'', 36),
      (ascii ''As-Saffat'', 37),
      (ascii ''Sad'', 38),
      (ascii ''Az-Zumar'', 39),
      (ascii ''Ghafir'', 40),
      (ascii ''Fussilat'', 41),
      (ascii ''Ash-Shuraa'', 42),
      (ascii ''Az-Zukhruf'', 43),
      (ascii ''Ad-Dukhan'', 44),
      (ascii ''Al-Jathiyah'', 45),
      (ascii ''Al-Ahqaf'', 46),
      (ascii ''Muhammad'', 47),
      (ascii ''Al-Fath'', 48),
      (ascii ''Al-Hujurat'', 49),
      (ascii ''Qaf'', 50),
      (ascii ''Adh-Dhariyat'', 51),
      (ascii ''At-Tur'', 52),
      (ascii ''An-Najm'', 53),
      (ascii ''Al-Qamar'', 54),
      (ascii ''Ar-Rahman'', 55),
      (ascii ''Al-Waqi'' @ [39] @ ascii ''ah'', 56),
      (ascii ''Al-Hadid'', 57),
      (ascii ''Al-Mujadila'', 58),
      (ascii ''Al-Hashr'', 59),
      (ascii ''Al-Mumtahanah'', 60),
      (ascii ''As-Saff'', 61),
      (ascii ''Al-Jumu'' @ [39] @ ascii ''ah'', 62),
      (ascii ''Al-Munafiqun'', 63),
      (ascii ''At-Taghabun'', 64),
      (ascii ''At-Talaq'', 65),
      (ascii ''At-Tahrim'', 66),
      (ascii ''Al-Mulk'', 67),
      (ascii ''Al-Qalam'', 68),
      (ascii ''Al-Haqqah'', 69),
      (ascii ''Al-Ma'' @ [39] @ ascii ''arij'', 70),
      (ascii ''Nuh'', 71),
      (ascii ''Al-Jinn'', 72),
      (ascii ''Al-Muzzammil'', 73),
      (ascii ''Al-Muddaththir'', 74),
      (ascii ''Al-Qiyamah'', 75),
      (ascii ''Al-Insan'', 76),
      (ascii ''Al-Mursalat'', 77),
      (ascii ''An-Naba'', 78),
      (ascii ''An-Nazi'' @ [39] @ ascii ''at'', 79),
      (ascii ''Abasa'', 80),
      (ascii ''At-Takwir'', 81),
      (ascii ''Al-Infitar'', 82),
      (ascii ''Al-Mutaffifin'', 83),
      (ascii ''Al-Inshiqaq'', 84),
      (ascii ''Al-Buruj'', 85),
      (ascii ''At-Tariq'', 86),
      (ascii ''Al-A'' @ [39] @ ascii ''la'', 87),
      (ascii ''Al-Ghashiyah'', 88),
      (ascii ''Al-Fajr'', 89),
      (ascii ''Al-Balad'', 90),
      (ascii ''Ash-Shams'', 91),
      (ascii ''Al-Layl'', 92),
      (ascii ''Ad-Duha'', 93),
      (ascii ''Ash-Sharh'', 94),
      (ascii ''At-Tin'', 95),
      (ascii ''Al-'' @ [39] @ ascii ''Alaq'', 96),
      (ascii ''Al-Qadr'', 97),
      (ascii ''Al-Bayyinah'', 98),
      (ascii ''Az-Zalzalah'', 99),
      (ascii ''Al-'' @ [39] @ ascii ''Adiyat'', 100),
      (ascii ''Al-Qari'' @ [39] @ ascii ''ah'', 101),
      (ascii ''At-Takathur'', 102),
      (ascii ''Al-'' @ [39] @ ascii ''Asr'', 103),
      (ascii ''Al-Humazah'', 104),
      (ascii ''Al-Fil'', 105),
      (ascii ''Quraysh'', 106),
      (ascii ''Al-Ma'' @ [39] @ ascii ''un'', 107),
      (ascii ''Al-Kawthar'', 108),
      (ascii ''Al-Kafirun'', 109),
      (ascii ''An-Nasr'', 110),
      (ascii ''Al-Masad'', 111),
      (ascii ''Al-Ikhlas'', 112),
      (ascii ''Al-Falaq'', 113),
      (ascii ''An-Nas'', 114)
     ]"

definition englishToNum :: "(jstring \<times> nat) list" where
  "englishToNum = mkMap englishPairs"

text \<open>\<^verbatim>\<open>s.includes(k)\<close>: \<open>k\<close> occurs in \<open>s\<close> at some position.\<close>

fun includes_str :: "jstring \<Rightarrow> jstring \<Rightarrow> bool" where
  "includes_str [] k = (k = [])"
| "includes_str (c # cs) k = (take (length k) (c # cs) = k \<or> includes_str cs k)"

text \<open>
  \<^verbatim>\<open>s.toLowerCase()\<close>. On a string of ASCII characters only, the letters \<open>A\<close> to
  \<open>Z\<close> become \<open>a\<close> to \<open>z\<close> and nothing else changes. On any other string the result
  is that of the built-in Unicode case mapping, which is the parameter \<open>lc\<close>.
\<close>

definition toLowerCase :: "(jstring \<Rightarrow> jstring) \<Rightarrow> jstring \<Rightarrow> jstring" where
  "toLowerCase lc s =
     (if list_all (\<lambda>c. c < 128) s
      then map (\<lambda>c. if 65 \<le> c \<and> c \<le> 90 then c + 32 else c) s
      else lc s)"

text \<open>
  The loop of lines 705-707: the value of the first entry, in the order of the map,
  whose key occurs in \<open>norm\<close>.
\<close>

fun scanArabic :: "jstring \<Rightarrow> (jstring \<times> nat) list \<Rightarrow> nat option" where
  "scanArabic nrm [] = None"
| "scanArabic nrm ((key, val) # entries) =
     (if includes_str nrm key then Some val else scanArabic nrm entries)"

text \<open>
  The loop of lines 728-730: the value of the first entry whose lower-cased key occurs
  in the lower-cased input.
\<close>

fun scanEnglish ::
    "(jstring \<Rightarrow> jstring) \<Rightarrow> jstring \<Rightarrow> (jstring \<times> nat) list \<Rightarrow> nat option" where
  "scanEnglish lc en [] = None"
| "scanEnglish lc en ((k, v) # entries) =
     (if includes_str (toLowerCase lc en) (toLowerCase lc k) then Some v
      else scanEnglish lc en entries)"

text \<open>\<^verbatim>\<open>map.get(key)\<close> followed by a truthiness test: absent and \<open>0\<close> are falsy.\<close>

definition getTruthy :: "(jstring \<times> nat) list \<Rightarrow> jstring \<Rightarrow> nat option" where
  "getTruthy m key = (case map_of m key of Some n \<Rightarrow> if n \<noteq> 0 then Some n else None | None \<Rightarrow> None)"

text \<open>
  \<^verbatim>\<open>mapSurahNameToNumber(surahName)\<close>, lines 699-732, on a string. The two tables are
  arguments of the worker, so that the order of the strategies can be stated for any
  tables; the function of the source is its instance at the two tables of the source.
  The first argument is the built-in case mapping that \<open>toLowerCase\<close> takes.
\<close>

definition resolveWith ::
    "(jstring \<Rightarrow> jstring) \<Rightarrow> (jstring \<times> nat) list \<Rightarrow> (jstring \<times> nat) list \<Rightarrow>
     jstring \<Rightarrow> nat" where
  "resolveWith lc arabicMap englishMap surahName =
     (if surahName = [] then 0
      else
        let nrm = normalizeSurahNameForMatch (trim surahName);
            num = (case getTruthy arabicMap nrm of
                     None \<Rightarrow> scanArabic nrm arabicMap
                   | Some n \<Rightarrow> Some n)
        in (case (case num of Some n \<Rightarrow> if n \<noteq> 0 then Some n else None | None \<Rightarrow> None) of
              Some n \<Rightarrow> n
            | None \<Rightarrow>
                let en = trim surahName in
                (case getTruthy englishMap en of
                   Some v \<Rightarrow> v
                 | None \<Rightarrow>
                     (case scanEnglish lc en englishMap of Some v \<Rightarrow> v | None \<Rightarrow> 0))))"

definition mapSurahNameToNumber :: "(jstring \<Rightarrow> jstring) \<Rightarrow> jstring \<Rightarrow> nat" where
  "mapSurahNameToNumber lc surahName =
     resolveWith lc ARABIC_NORM_TO_NUM englishToNum surahName"

text \<open>
  The order of strategies as the specification words it, for comparison: after the two
  native-script strategies, an exact case-insensitive match against the alternate-script
  table, then the case-insensitive substring scan.
\<close>

fun exactIgnoreCase ::
    "(jstring \<Rightarrow> jstring) \<Rightarrow> jstring \<Rightarrow> (jstring \<times> nat) list \<Rightarrow> nat option" where
  "exactIgnoreCase lc en [] = None"
| "exactIgnoreCase lc en ((k, v) # entries) =
     (if toLowerCase lc en = toLowerCase lc k then Some v else exactIgnoreCase lc en entries)"

definition specResolve :: "(jstring \<Rightarrow> jstring) \<Rightarrow> jstring \<Rightarrow> nat" where
  "specResolve lc surahName =
     (let nrm = normalizeSurahNameForMatch (trim surahName);
          en = trim surahName
      in case map_of ARABIC_NORM_TO_NUM nrm of
           Some n \<Rightarrow> n
         | None \<Rightarrow>
             (case scanArabic nrm ARABIC_NORM_TO_NUM of
                Some n \<Rightarrow> n
              | None \<Rightarrow>
                  (case exactIgnoreCase lc en englishToNum of
                     Some v \<Rightarrow> v
                   | None \<Rightarrow>
                       (case scanEnglish lc en englishToNum of Some v \<Rightarrow> v | None \<Rightarrow> 0))))"

section \<open>Auxiliary definitions for the proofs\<close>

text \<open>
  A stable character is one of the Arabic block that no step of the normalizer touches.
\<close>

definition isStable :: "nat \<Rightarrow> bool" where
  "isStable c \<longleftrightarrow> isArabic c \<and> \<not> isHarakat c \<and> \<not> isMark c \<and>
     c \<noteq> 0x0622 \<and> c \<noteq> 0x0623 \<and> c \<noteq> 0x0625 \<and> c \<noteq> 0x0649 \<and> c \<noteq> 0x0629"

text \<open>Two adjacent whitespace characters somewhere in the string.\<close>

fun adjSpaces :: "jstring \<Rightarrow> bool" where
  "adjSpaces (a # b # cs) = ((isSpace a \<and> isSpace b) \<or> adjSpaces (b # cs))"
| "adjSpaces _ = False"

text \<open>The shape of a normalized string.\<close>

definition isNormal :: "jstring \<Rightarrow> bool" where
  "isNormal s \<longleftrightarrow> (\<forall>c\<in>set s. isStable c \<or> c = 32) \<and> \<not> adjSpaces s \<and>
     (s = [] \<or> (\<not> isSpace (hd s) \<and> \<not> isSpace (last s)))"

text \<open>List forms of the trigram set and of the score, for evaluation.\<close>

definition trigramList :: "jstring \<Rightarrow> jstring list" where
  "trigramList s = map (\<lambda>i. slice s i (i + 3)) [0..<length s - 2]"

definition jaccardList :: "'a list \<Rightarrow> 'a list \<Rightarrow> rat" where
  "jaccardList xs ys =
     (let inter = length (filter (\<lambda>x. x \<in> set ys) (remdups xs));
          u = length (remdups xs) + length (remdups ys) - inter
      in of_nat inter / of_nat (if u = 0 then 1 else u))"

text \<open>
  What the loop of \<open>scan\<close> computes for one candidate: whether it is scored at all
  (its normalized text is not empty), and its score against the transcript's trigrams.
\<close>

definition scorable :: "candidate \<Rightarrow> bool" where
  "scorable c \<longleftrightarrow> normalizeArabic (c_text c) \<noteq> []"

definition scoreOf :: "jstring set \<Rightarrow> candidate \<Rightarrow> rat" where
  "scoreOf tSet c = jaccard tSet (toTrigrams (normalizeArabic (c_text c)))"

text \<open>
  The contents of \<open>ARABIC_NORM_TO_NUM\<close>, computed once (lemma \<open>ARABIC_NORM_TO_NUM_eq\<close>).
\<close>

definition normalizedTable :: "(jstring \<times> nat) list" where
  "normalizedTable =
     [
      ([0x0627, 0x0644, 0x0641, 0x0627, 0x062A, 0x062D, 0x0647], 1),
      ([0x0627, 0x0644, 0x0628, 0x0642, 0x0631, 0x0647], 2),
      ([0x0627, 0x0644, 0x0020, 0x0639, 0x0645, 0x0631, 0x0627, 0x0646], 3),
      ([0x0627, 0x0644, 0x0646, 0x0633, 0x0627, 0x0621], 4),
      ([0x0627, 0x0644, 0x0645, 0x0627, 0x0626, 0x062F, 0x0647], 5),
      ([0x0627, 0x0644, 0x0627, 0x0646, 0x0639, 0x0627, 0x0645], 6),
      ([0x0627, 0x0644, 0x0627, 0x0639, 0x0631, 0x0627, 0x0641], 7),
      ([0x0627, 0x0644, 0x0627, 0x0646, 0x0641, 0x0627, 0x0644], 8),
      ([0x0627, 0x0644, 0x062A, 0x0648, 0x0628, 0x0647], 9),
      ([0x064A, 0x0648, 0x0646, 0x0633], 10),
      ([0x0647, 0x0648, 0x062F], 11),
      ([0x064A, 0x0648, 0x0633, 0x0641], 12),
      ([0x0627, 0x0644, 0x0631, 0x0639, 0x062F], 13),
      ([0x0627, 0x0628, 0x0631, 0x0627, 0x0647, 0x064A, 0x0645], 14),
      ([0x0627, 0x0644, 0x062D, 0x062C, 0x0631], 15),
      ([0x0627, 0x0644, 0x0646, 0x062D, 0x0644], 16),
      ([0x0627, 0x0644, 0x0627, 0x0633, 0x0631, 0x0627, 0x0621], 17),
      ([0x0627, 0x0644, 0x0643, 0x0647, 0x0641], 18),
      ([0x0645, 0x0631, 0x064A, 0x0645], 19),
      ([0x0637, 0x0647], 20),
      ([0x0627, 0x0644, 0x0627, 0x0646, 0x0628, 0x064A, 0x0627, 0x0621], 21),
      ([0x0627, 0x0644, 0x062D, 0x062C], 22),
      ([0x0627, 0x0644, 0x0645, 0x0624, 0x0645, 0x0646, 0x0648, 0x0646], 23),
      ([0x0627, 0x0644, 0x0646, 0x0648, 0x0631], 24),
      ([0x0627, 0x0644, 0x0641, 0x0631, 0x0642, 0x0627, 0x0646], 25),
      ([0x0627, 0x0644, 0x0634, 0x0639, 0x0631, 0x0627, 0x0621], 26),
      ([0x0627, 0x0644, 0x0646, 0x0645, 0x0644], 27),
      ([0x0627, 0x0644, 0x0642, 0x0635, 0x0635], 28),
      ([0x0627, 0x0644, 0x0639, 0x0646, 0x0643, 0x0628, 0x0648, 0x062A], 29),
      ([0x0627, 0x0644, 0x0631, 0x0648, 0x0645], 30),
      ([0x0644, 0x0642, 0x0645, 0x0627, 0x0646], 31),
      ([0x0627, 0x0644, 0x0633, 0x062C, 0x062F, 0x0647], 32),
      ([0x0627, 0x0644, 0x0627, 0x062D, 0x0632, 0x0627, 0x0628], 33),
      ([0x0633, 0x0628, 0x0627], 34),
      ([0x0641, 0x0627, 0x0637, 0x0631], 35),
      ([0x064A, 0x0633], 36),
      ([0x0627, 0x0644, 0x0635, 0x0627, 0x0641, 0x0627, 0x062A], 37),
      ([0x0635], 38),
      ([0x0627, 0x0644, 0x0632, 0x0645, 0x0631], 39),
      ([0x063A, 0x0627, 0x0641, 0x0631], 40),
      ([0x0641, 0x0635, 0x0644, 0x062A], 41),
      ([0x0627, 0x0644, 0x0634, 0x0648, 0x0631, 0x064A], 42),
      ([0x0627, 0x0644, 0x0632, 0x062E, 0x0631, 0x0641], 43),
      ([0x0627, 0x0644, 0x062F, 0x062E, 0x0627, 0x0646], 44),
      ([0x0627, 0x0644, 0x062C, 0x0627, 0x062B, 0x064A, 0x0647], 45),
      ([0x0627, 0x0644, 0x0627, 0x062D, 0x0642, 0x0627, 0x0641], 46),
      ([0x0645, 0x062D, 0x0645, 0x062F], 47),
      ([0x0627, 0x0644, 0x0641, 0x062A, 0x062D], 48),
      ([0x0627, 0x0644, 0x062D, 0x062C, 0x0631, 0x0627, 0x062A], 49),
      ([0x0642], 50),
      ([0x0627, 0x0644, 0x0630, 0x0627, 0x0631, 0x064A, 0x0627, 0x062A], 51),
      ([0x0627, 0x0644, 0x0637, 0x0648, 0x0631], 52),
      ([0x0627, 0x0644, 0x0646, 0x062C, 0x0645], 53),
      ([0x0627, 0x0644, 0x0642, 0x0645, 0x0631], 54),
      ([0x0627, 0x0644, 0x0631, 0x062D, 0x0645, 0x0646], 55),
      ([0x0627, 0x0644, 0x0648, 0x0627, 0x0642, 0x0639, 0x0647], 56),
      ([0x0627, 0x0644, 0x062D, 0x062F, 0x064A, 0x062F], 57),
      ([0x0627, 0x0644, 0x0645, 0x062C, 0x0627, 0x062F, 0x0644, 0x0647], 58),
      ([0x0627, 0x0644, 0x062D, 0x0634, 0x0631], 59),
      ([0x0627, 0x0644, 0x0645, 0x0645, 0x062A, 0x062D, 0x0646, 0x0647], 60),
      ([0x0627, 0x0644, 0x0635, 0x0641], 61),
      ([0x0627, 0x0644, 0x062C, 0x0645, 0x0639, 0x0647], 62),
      ([0x0627, 0x0644, 0x0645, 0x0646, 0x0627, 0x0641, 0x0642, 0x0648, 0x0646], 63),
      ([0x0627, 0x0644, 0x062A, 0x063A, 0x0627, 0x0628, 0x0646], 64),
      ([0x0627, 0x0644, 0x0637, 0x0644, 0x0627, 0x0642], 65),
      ([0x0627, 0x0644, 0x062A, 0x062D, 0x0631, 0x064A, 0x0645], 66),
      ([0x0627, 0x0644, 0x0645, 0x0644, 0x0643], 67),
      ([0x0627, 0x0644, 0x0642, 0x0644, 0x0645], 68),
      ([0x0627, 0x0644, 0x062D, 0x0627, 0x0642, 0x0647], 69),
      ([0x0627, 0x0644, 0x0645, 0x0639, 0x0627, 0x0631, 0x062C], 70),
      ([0x0646, 0x0648, 0x062D], 71),
      ([0x0627, 0x0644, 0x062C, 0x0646], 72),
      ([0x0627, 0x0644, 0x0645, 0x0632, 0x0645, 0x0644], 73),
      ([0x0627, 0x0644, 0x0645, 0x062F, 0x062B, 0x0631], 74),
      ([0x0627, 0x0644, 0x0642, 0x064A, 0x0627, 0x0645, 0x0647], 75),
      ([0x0627, 0x0644, 0x0627, 0x0646, 0x0633, 0x0627, 0x0646], 76),
      ([0x0627, 0x0644, 0x0645, 0x0631, 0x0633, 0x0644, 0x0627, 0x062A], 77),
      ([0x0627, 0x0644, 0x0646, 0x0628, 0x0627], 78),
      ([0x0627, 0x0644, 0x0646, 0x0627, 0x0632, 0x0639, 0x0627, 0x062A], 79),
      ([0x0639, 0x0628, 0x0633], 80),
      ([0x0627, 0x0644, 0x062A, 0x0643, 0x0648, 0x064A, 0x0631], 81),
      ([0x0627, 0x0644, 0x0627, 0x0646, 0x0641, 0x0637, 0x0627, 0x0631], 82),
      ([0x0627, 0x0644, 0x0645, 0x0637, 0x0641, 0x0641, 0x064A, 0x0646], 83),
      ([0x0627, 0x0644, 0x0627, 0x0646, 0x0634, 0x0642, 0x0627, 0x0642], 84),
      ([0x0627, 0x0644, 0x0628, 0x0631, 0x0648, 0x062C], 85),
      ([0x0627, 0x0644, 0x0637, 0x0627, 0x0631, 0x0642], 86),
      ([0x0627, 0x0644, 0x0627, 0x0639, 0x0644, 0x064A], 87),
      ([0x0627, 0x0644, 0x063A, 0x0627, 0x0634, 0x064A, 0x0647], 88),
      ([0x0627, 0x0644, 0x0641, 0x062C, 0x0631], 89),
      ([0x0627, 0x0644, 0x0628, 0x0644, 0x062F], 90),
      ([0x0627, 0x0644, 0x0634, 0x0645, 0x0633], 91),
      ([0x0627, 0x0644, 0x0644, 0x064A, 0x0644], 92),
      ([0x0627, 0x0644, 0x0636, 0x062D, 0x064A], 93),
      ([0x0627, 0x0644, 0x0634, 0x0631, 0x062D], 94),
      ([0x0627, 0x0644, 0x062A, 0x064A, 0x0646], 95),
      ([0x0627, 0x0644, 0x0639, 0x0644, 0x0642], 96),
      ([0x0627, 0x0644, 0x0642, 0x062F, 0x0631], 97),
      ([0x0627, 0x0644, 0x0628, 0x064A, 0x0646, 0x0647], 98),
      ([0x0627, 0x0644, 0x0632, 0x0644, 0x0632, 0x0644, 0x0647], 99),
      ([0x0627, 0x0644, 0x0639, 0x0627, 0x062F, 0x064A, 0x0627, 0x062A], 100),
      ([0x0627, 0x0644, 0x0642, 0x0627, 0x0631, 0x0639, 0x0647], 101),
      ([0x0627, 0x0644, 0x062A, 0x0643, 0x0627, 0x062B, 0x0631], 102),
      ([0x0627, 0x0644, 0x0639, 0x0635, 0x0631], 103),
      ([0x0627, 0x0644, 0x0647, 0x0645, 0x0632, 0x0647], 104),
      ([0x0627, 0x0644, 0x0641, 0x064A, 0x0644], 105),
      ([0x0642, 0x0631, 0x064A, 0x0634], 106),
      ([0x0627, 0x0644, 0x0645, 0x0627, 0x0639, 0x0648, 0x0646], 107),
      ([0x0627, 0x0644, 0x0643, 0x0648, 0x062B, 0x0631], 108),
      ([0x0627, 0x0644, 0x0643, 0x0627, 0x0641, 0x0631, 0x0648, 0x0646], 109),
      ([0x0627, 0x0644, 0x0646, 0x0635, 0x0631], 110),
      ([0x0627, 0x0644, 0x0645, 0x0633, 0x062F], 111),
      ([0x0627, 0x0644, 0x0627, 0x062E, 0x0644, 0x0627, 0x0635], 112),
      ([0x0627, 0x0644, 0x0641, 0x0644, 0x0642], 113),
      ([0x0627, 0x0644, 0x0646, 0x0627, 0x0633], 114)
     ]"

text \<open>The first entry of a table whose key satisfies a test: what both scan loops compute.\<close>

fun firstMatch :: "('k \<Rightarrow> bool) \<Rightarrow> ('k \<times> 'v) list \<Rightarrow> 'v option" where
  "firstMatch P [] = None"
| "firstMatch P ((k, v) # entries) = (if P k then Some v else firstMatch P entries)"

section \<open>Example inputs\<close>

text \<open>
  Example inputs: a corpus whose second chapter has no verse, and a corpus of two
  chapters (two verses, then one verse equal to the first verse of the first chapter;
  the second chapter has no Arabic name).
\<close>

definition corpusWithEmptyChapter :: corpus where
  "corpusWithEmptyChapter =
     \<lparr>surahs = [\<lparr>englishName = [], nameArabic = [0x0627], s_ayahs = [\<lparr>v_text = [0x0628]\<rparr>]\<rparr>,
                \<lparr>englishName = [], nameArabic = [0x0644], s_ayahs = []\<rparr>]\<rparr>"

definition bismillah :: jstring where
  "bismillah = [0x0628, 0x0633, 0x0645, 32, 0x0627, 0x0644, 0x0644, 0x0647]"

definition alhamd :: jstring where
  "alhamd = [0x0627, 0x0644, 0x062D, 0x0645, 0x062F, 32, 0x0644, 0x0644, 0x0647]"

definition fatiha :: jstring where
  "fatiha = [0x0627, 0x0644, 0x0641, 0x0627, 0x062A, 0x062D, 0x0629]"

definition corpusTwoChapters :: corpus where
  "corpusTwoChapters =
     \<lparr>surahs = [\<lparr>englishName = [], nameArabic = fatiha,
                 s_ayahs = [\<lparr>v_text = bismillah\<rparr>, \<lparr>v_text = alhamd\<rparr>]\<rparr>,
                \<lparr>englishName = [], nameArabic = [], s_ayahs = [\<lparr>v_text = bismillah\<rparr>]\<rparr>]\<rparr>"

text \<open>
  Example responses that carry a verse-numbers list: \<^verbatim>\<open>{"ayahs": [7, 3, 5]}\<close> and
  \<^verbatim>\<open>{"ayahs": [4]}\<close>; and a digit function for the witnesses, which print integers
  below \<open>2^53\<close> only.
\<close>

definition parsedThree :: json where
  "parsedThree = JObj [(ascii ''ayahs'', JArr [JNum (Finite 7), JNum (Finite 3), JNum (Finite 5)])]"

definition parsedOne :: json where
  "parsedOne = JObj [(ascii ''ayahs'', JArr [JNum (Finite 4)])]"

definition noDigits :: "rat \<Rightarrow> jstring" where
  "noDigits q = []"




section \<open>Properties of the Text Normalizer\<close>


lemma isSpace_32: "isSpace 32" by (simp add: isSpace_def)

lemma isArabic_not_isSpace: "isArabic c \<Longrightarrow> \<not> isSpace c"
  by (auto simp: isArabic_def isSpace_def)

lemma isStable_fixed:
  "isStable c \<Longrightarrow> \<not> isHarakat c \<and> \<not> isMark c \<and> foldAlif c = c \<and> foldAlifMaqsura c = c
     \<and> foldTaMarbuta c = c \<and> otherToSpace c = c \<and> \<not> isSpace c"
  by (auto simp: isStable_def foldAlif_def foldAlifMaqsura_def foldTaMarbuta_def otherToSpace_def
      isArabic_not_isSpace)

lemma space_fixed:
  "\<not> isHarakat 32 \<and> \<not> isMark 32 \<and> foldAlif 32 = 32 \<and> foldAlifMaqsura 32 = 32
     \<and> foldTaMarbuta 32 = 32 \<and> otherToSpace 32 = 32"
  by (simp add: isHarakat_def isMark_def foldAlif_def foldAlifMaqsura_def foldTaMarbuta_def
      otherToSpace_def isSpace_def)

lemma folded_char:
  "\<not> isHarakat c \<Longrightarrow> \<not> isMark c \<Longrightarrow>
   isStable (otherToSpace (foldTaMarbuta (foldAlifMaqsura (foldAlif c))))
   \<or> isSpace (otherToSpace (foldTaMarbuta (foldAlifMaqsura (foldAlif c))))"
  by (simp add: isStable_def foldAlif_def foldAlifMaqsura_def foldTaMarbuta_def otherToSpace_def
      isHarakat_def isMark_def isArabic_def isSpace_def) 


lemma adjSpaces_appendI1: "adjSpaces xs \<Longrightarrow> adjSpaces (xs @ ys)"
  by (induction xs rule: adjSpaces.induct) auto

lemma adjSpaces_appendI2: "adjSpaces ys \<Longrightarrow> adjSpaces (xs @ ys)"
proof (induction xs)
  case Nil then show ?case by simp
next
  case (Cons a xs)
  then show ?case by (cases "xs @ ys") auto
qed

lemma adjSpaces_nth:
  "adjSpaces s \<longleftrightarrow> (\<exists>i. Suc i < length s \<and> isSpace (s ! i) \<and> isSpace (s ! Suc i))"
proof (induction s rule: adjSpaces.induct)
  case (1 a b cs)
  show ?case
  proof
    assume "adjSpaces (a # b # cs)"
    then consider "isSpace a \<and> isSpace b" | "adjSpaces (b # cs)" by auto
    then show "\<exists>i. Suc i < length (a # b # cs) \<and> isSpace ((a # b # cs) ! i) \<and> isSpace ((a # b # cs) ! Suc i)"
    proof cases
      case 1 then show ?thesis by (intro exI[of _ 0]) simp
    next
      case 2
      with "1.IH" obtain i where "Suc i < length (b # cs)" "isSpace ((b # cs) ! i)" "isSpace ((b # cs) ! Suc i)"
        by blast
      then show ?thesis by (intro exI[of _ "Suc i"]) simp
    qed
  next
    assume "\<exists>i. Suc i < length (a # b # cs) \<and> isSpace ((a # b # cs) ! i) \<and> isSpace ((a # b # cs) ! Suc i)"
    then obtain i where i: "Suc i < length (a # b # cs)" "isSpace ((a # b # cs) ! i)" "isSpace ((a # b # cs) ! Suc i)"
      by blast
    show "adjSpaces (a # b # cs)"
    proof (cases i)
      case 0 with i show ?thesis by simp
    next
      case (Suc j)
      with i have "Suc j < length (b # cs) \<and> isSpace ((b # cs) ! j) \<and> isSpace ((b # cs) ! Suc j)" by simp
      with "1.IH" show ?thesis by auto
    qed
  qed
qed simp_all

lemma collapseSpaces_set:
  "\<forall>c\<in>set xs. isStable c \<or> isSpace c \<Longrightarrow> \<forall>c\<in>set (collapseSpaces xs). isStable c \<or> c = 32"
proof (induction xs rule: collapseSpaces.induct)
  case 1 then show ?case by simp
next
  case (2 c cs)
  show ?case
  proof (cases "isSpace c")
    case True
    have "\<forall>c\<in>set (dropWhile isSpace cs). isStable c \<or> isSpace c"
      using "2.prems" by (auto dest: set_dropWhileD)
    with True "2.IH"(1) show ?thesis by simp
  next
    case False
    with "2.prems" "2.IH"(2) show ?thesis by simp
  qed
qed

lemma collapseSpaces_hd:
  "xs \<noteq> [] \<Longrightarrow> \<not> isSpace (hd xs) \<Longrightarrow> collapseSpaces xs \<noteq> [] \<and> hd (collapseSpaces xs) = hd xs"
  by (cases xs) auto

lemma dropWhile_hd: "dropWhile P xs \<noteq> [] \<Longrightarrow> \<not> P (hd (dropWhile P xs))"
  by (metis hd_dropWhile)

lemma adjSpaces_Cons:
  "adjSpaces (a # xs) \<longleftrightarrow> (xs \<noteq> [] \<and> isSpace a \<and> isSpace (hd xs)) \<or> adjSpaces xs"
  by (cases xs) auto

lemma collapseSpaces_noadj: "\<not> adjSpaces (collapseSpaces xs)"
proof (induction xs rule: collapseSpaces.induct)
  case 1 then show ?case by simp
next
  case (2 c cs)
  show ?case
  proof (cases "isSpace c")
    case True
    let ?d = "dropWhile isSpace cs"
    have "collapseSpaces ?d \<noteq> [] \<Longrightarrow> \<not> isSpace (hd (collapseSpaces ?d))"
    proof -
      assume ne: "collapseSpaces ?d \<noteq> []"
      then have "?d \<noteq> []" by (metis collapseSpaces.simps(1))
      then have "\<not> isSpace (hd ?d)" by (rule dropWhile_hd)
      with \<open>?d \<noteq> []\<close> show ?thesis using collapseSpaces_hd by metis
    qed
    with True "2.IH"(1) show ?thesis by (auto simp: adjSpaces_Cons)
  next
    case False
    with "2.IH"(2) show ?thesis by (auto simp: adjSpaces_Cons)
  qed
qed

lemma collapseSpaces_id:
  "\<forall>c\<in>set xs. isSpace c \<longrightarrow> c = 32 \<Longrightarrow> \<not> adjSpaces xs \<Longrightarrow> collapseSpaces xs = xs"
proof (induction xs rule: collapseSpaces.induct)
  case 1 then show ?case by simp
next
  case (2 c cs)
  have na: "\<not> adjSpaces cs" using "2.prems"(2) by (simp add: adjSpaces_Cons)
  show ?case
  proof (cases "isSpace c")
    case True
    then have c: "c = 32" using "2.prems"(1) by simp
    have "cs = [] \<or> \<not> isSpace (hd cs)" using "2.prems"(2) True by (auto simp: adjSpaces_Cons)
    then have d: "dropWhile isSpace cs = cs" by (simp add: dropWhile_eq_self_iff)
    from "2.IH"(1)[OF True] "2.prems"(1) na d have "collapseSpaces cs = cs" by simp
    with True c d show ?thesis by simp
  next
    case False
    with "2.IH"(2) "2.prems"(1) na show ?thesis by simp
  qed
qed

lemma rev_dropWhile_decomp: "xs = rev (dropWhile P (rev xs)) @ rev (takeWhile P (rev xs))"
  by (metis rev_append rev_rev_ident takeWhile_dropWhile_id)

lemma trim_prefix: "dropWhile isSpace s = trim s @ rev (takeWhile isSpace (rev (dropWhile isSpace s)))"
  unfolding trim_def by (rule rev_dropWhile_decomp)

lemma trim_decomp: "\<exists>u v. s = u @ trim s @ v"
  by (metis trim_prefix takeWhile_dropWhile_id)

lemma trim_noadj: "\<not> adjSpaces s \<Longrightarrow> \<not> adjSpaces (trim s)"
  using trim_decomp[of s] adjSpaces_appendI1 adjSpaces_appendI2 by metis

lemma trim_set: "c \<in> set (trim s) \<Longrightarrow> c \<in> set s"
  using trim_decomp[of s] by (metis Un_iff set_append)

lemma trim_last: "trim s \<noteq> [] \<Longrightarrow> \<not> isSpace (last (trim s))"
  unfolding trim_def by (simp add: last_rev dropWhile_hd)

lemma trim_hd: "trim s \<noteq> [] \<Longrightarrow> \<not> isSpace (hd (trim s))"
proof -
  assume ne: "trim s \<noteq> []"
  let ?d = "dropWhile isSpace s"
  have 2: "?d = trim s @ rev (takeWhile isSpace (rev ?d))" by (rule trim_prefix)
  with ne have "?d \<noteq> []" by (metis append_is_Nil_conv)
  then have "\<not> isSpace (hd ?d)" by (rule dropWhile_hd)
  moreover from 2 ne have "hd ?d = hd (trim s)" by (metis hd_append2)
  ultimately show ?thesis by simp
qed

lemma trim_id: "s = [] \<or> (\<not> isSpace (hd s) \<and> \<not> isSpace (last s)) \<Longrightarrow> trim s = s"
proof (cases "s = []")
  case True then show ?thesis by (simp add: trim_def)
next
  case False
  assume "s = [] \<or> (\<not> isSpace (hd s) \<and> \<not> isSpace (last s))"
  with False have h: "\<not> isSpace (hd s)" and l: "\<not> isSpace (last s)" by auto
  from h have 1: "dropWhile isSpace s = s" by (simp add: dropWhile_eq_self_iff)
  from l False have "\<not> isSpace (hd (rev s))" by (simp add: hd_rev)
  then have "dropWhile isSpace (rev s) = rev s" by (simp add: dropWhile_eq_self_iff)
  with 1 show ?thesis by (simp add: trim_def)
qed


lemma normalizeArabic_isNormal: "isNormal (normalizeArabic s)"
proof (cases "s = []")
  case True then show ?thesis by (simp add: normalizeArabic_def isNormal_def)
next
  case False
  let ?m = "map otherToSpace (map foldTaMarbuta (map foldAlifMaqsura (map foldAlif
               (filter (\<lambda>c. \<not> isMark c) (filter (\<lambda>c. \<not> isHarakat c) s)))))"
  have n: "normalizeArabic s = trim (collapseSpaces ?m)" using False by (simp add: normalizeArabic_def)
  have "\<forall>c\<in>set ?m. isStable c \<or> isSpace c" using folded_char by auto
  then have 1: "\<forall>c\<in>set (collapseSpaces ?m). isStable c \<or> c = 32" by (rule collapseSpaces_set)
  have 2: "\<not> adjSpaces (trim (collapseSpaces ?m))" by (rule trim_noadj) (rule collapseSpaces_noadj)
  from 1 have 3: "\<forall>c\<in>set (trim (collapseSpaces ?m)). isStable c \<or> c = 32"
    using trim_set by blast
  show ?thesis unfolding n isNormal_def using 2 3 trim_hd trim_last by blast
qed

lemma isNormal_fixed: "isNormal s \<Longrightarrow> normalizeArabic s = s"
proof (cases "s = []")
  case True then show ?thesis by (simp add: normalizeArabic_def)
next
  case False
  assume n: "isNormal s"
  then have all: "\<forall>c\<in>set s. isStable c \<or> c = 32" by (simp add: isNormal_def)
  have f1: "filter (\<lambda>c. \<not> isHarakat c) s = s" using all isStable_fixed space_fixed by (auto simp: filter_id_conv)
  have f2: "filter (\<lambda>c. \<not> isMark c) s = s" using all isStable_fixed space_fixed by (auto simp: filter_id_conv)
  have m1: "map foldAlif s = s" using all isStable_fixed space_fixed by (auto intro!: map_idI)
  have m2: "map foldAlifMaqsura s = s" using all isStable_fixed space_fixed by (auto intro!: map_idI)
  have m3: "map foldTaMarbuta s = s" using all isStable_fixed space_fixed by (auto intro!: map_idI)
  have m4: "map otherToSpace s = s" using all isStable_fixed space_fixed by (auto intro!: map_idI)
  have sp: "\<forall>c\<in>set s. isSpace c \<longrightarrow> c = 32" using all isStable_fixed by blast
  have c: "collapseSpaces s = s" using sp n by (intro collapseSpaces_id) (auto simp: isNormal_def)
  have t: "trim s = s" using n by (intro trim_id) (auto simp: isNormal_def)
  show ?thesis using False by (simp add: normalizeArabic_def f1 f2 m1 m2 m3 m4 c t)
qed



lemma collapseSpaces_subset: "c \<in> set (collapseSpaces xs) \<Longrightarrow> c \<in> set xs \<or> c = 32"
proof (induction xs rule: collapseSpaces.induct)
  case 1 then show ?case by simp
next
  case (2 d ds)
  then show ?case by (auto split: if_splits dest: set_dropWhileD)
qed

lemma trim_all_spaces: "\<forall>c\<in>set xs. isSpace c \<Longrightarrow> trim xs = []"
proof -
  assume "\<forall>c\<in>set xs. isSpace c"
  then have d: "dropWhile isSpace xs = []" by simp
  show ?thesis unfolding trim_def d by simp
qed

lemma normalizeArabic_nonArabic:
  assumes "\<forall>c\<in>set s. \<not> isArabic c"
  shows "normalizeArabic s = []"
proof (cases "s = []")
  case True then show ?thesis by (simp add: normalizeArabic_def)
next
  case False
  let ?m = "map otherToSpace (map foldTaMarbuta (map foldAlifMaqsura (map foldAlif
               (filter (\<lambda>c. \<not> isMark c) (filter (\<lambda>c. \<not> isHarakat c) s)))))"
  have ch: "\<And>c. \<not> isArabic c \<Longrightarrow> isSpace (otherToSpace (foldTaMarbuta (foldAlifMaqsura (foldAlif c))))"
    by (auto simp: isArabic_def foldAlif_def foldAlifMaqsura_def foldTaMarbuta_def otherToSpace_def isSpace_32)
  have "\<forall>c\<in>set ?m. isSpace c" using assms ch by auto
  then have "\<forall>c\<in>set (collapseSpaces ?m). isSpace c"
    using collapseSpaces_subset isSpace_32 by blast
  then have "trim (collapseSpaces ?m) = []" by (rule trim_all_spaces)
  then show ?thesis by (simp add: normalizeArabic_def)
qed

lemma isStable_isArabic: "isStable c \<Longrightarrow> isArabic c" by (simp add: isStable_def)

text \<open>
  C8. The Text Normalizer is idempotent: normalizing a normalized string changes nothing.
  (As a HOL function \<open>normalizeArabic\<close> is a pure, deterministic function of its
  input by construction: the source reads and writes nothing but its argument.)
\<close>

theorem normalizeArabic_idempotent:
  "normalizeArabic (normalizeArabic s) = normalizeArabic s"
  by (rule isNormal_fixed) (rule normalizeArabic_isNormal)

theorem normalizeArabic_idempotent_witness:
  "normalizeArabic (normalizeArabic [0x0628, 0x0650, 0x0633, 0x0652, 0x0645, 32, 9, 0x0623, 65])
     = normalizeArabic [0x0628, 0x0650, 0x0633, 0x0652, 0x0645, 32, 9, 0x0623, 65]"
  by (rule normalizeArabic_idempotent)

text \<open>
  C10. Every character of a normalized string is in the Arabic block U+0600..U+06FF or
  is a space; the string neither starts nor ends with whitespace and has no two
  adjacent whitespace characters; a string without any Arabic-block character
  normalizes to the empty string, and the Local Matcher returns absent for it whatever
  the corpus.
\<close>

theorem normalizeArabic_shape:
  "(\<forall>c\<in>set (normalizeArabic s). isArabic c \<or> c = 32) \<and>
   (normalizeArabic s \<noteq> [] \<longrightarrow>
      \<not> isSpace (hd (normalizeArabic s)) \<and> \<not> isSpace (last (normalizeArabic s))) \<and>
   (\<forall>i. Suc i < length (normalizeArabic s) \<longrightarrow>
      \<not> (isSpace (normalizeArabic s ! i) \<and> isSpace (normalizeArabic s ! Suc i))) \<and>
   ((\<forall>c\<in>set s. \<not> isArabic c) \<longrightarrow>
      normalizeArabic s = [] \<and> identifyByCorpus loaded s = None)"
proof -
  have n: "isNormal (normalizeArabic s)" by (rule normalizeArabic_isNormal)
  have 1: "\<forall>c\<in>set (normalizeArabic s). isArabic c \<or> c = 32"
    using n isStable_isArabic unfolding isNormal_def by blast
  have 2: "normalizeArabic s \<noteq> [] \<longrightarrow>
      \<not> isSpace (hd (normalizeArabic s)) \<and> \<not> isSpace (last (normalizeArabic s))"
    using n unfolding isNormal_def by blast
  have "\<not> adjSpaces (normalizeArabic s)" using n unfolding isNormal_def by blast
  then have 3: "\<forall>i. Suc i < length (normalizeArabic s) \<longrightarrow>
      \<not> (isSpace (normalizeArabic s ! i) \<and> isSpace (normalizeArabic s ! Suc i))"
    unfolding adjSpaces_nth by blast
  have 4: "(\<forall>c\<in>set s. \<not> isArabic c) \<longrightarrow>
      normalizeArabic s = [] \<and> identifyByCorpus loaded s = None"
  proof
    assume "\<forall>c\<in>set s. \<not> isArabic c"
    then have e: "normalizeArabic s = []" by (rule normalizeArabic_nonArabic)
    then have "identifyByCorpus loaded s = None"
      by (simp add: identifyByCorpus_def identifyByCorpusRun_def split: option.splits)
    with e show "normalizeArabic s = [] \<and> identifyByCorpus loaded s = None" by simp
  qed
  from 1 2 3 4 show ?thesis by blast
qed


theorem normalizeArabic_shape_witness:
  "list_all (\<lambda>c. \<not> isArabic c) (ascii ''Hello, world'') \<and>
   normalizeArabic (ascii ''Hello, world'') = [] \<and>
   identifyByCorpus (Some \<lparr>surahs = []\<rparr>) (ascii ''Hello, world'') = None \<and>
   normalizeArabic [32, 0x0628, 0x0650, 0x0633, 0x0652, 0x0645, 32, 9, 0x0623, 65, 0x0644, 33]
     = [0x0628, 0x0633, 0x0645, 32, 0x0627, 32, 0x0644] \<and>
   list_all (\<lambda>c. isArabic c \<or> c = 32) [0x0628, 0x0633, 0x0645, 32, 0x0627, 32, 0x0644] \<and>
   \<not> isSpace 0x0628 \<and> \<not> isSpace 0x0644 \<and>
   \<not> (isSpace ([0x0628, 0x0633, 0x0645, 32, 0x0627, 32, 0x0644] ! 3) \<and>
      isSpace ([0x0628, 0x0633, 0x0645, 32, 0x0627, 32, 0x0644] ! Suc 3))"
proof -
  let ?a = "[32, 0x0628, 0x0650, 0x0633, 0x0652, 0x0645, 32, 9, 0x0623, 65, 0x0644, 33]"
  let ?n = "[0x0628, 0x0633, 0x0645, 32, 0x0627, 32, 0x0644]"
  have h: "\<forall>c\<in>set (ascii ''Hello, world''). \<not> isArabic c"
    by (simp add: ascii_def isArabic_def)
  have n: "normalizeArabic ?a = ?n"
    by (simp add: normalizeArabic_def trim_def isSpace_def isHarakat_def isMark_def isArabic_def
        foldAlif_def foldAlifMaqsura_def foldTaMarbuta_def otherToSpace_def)
  have i: "Suc 3 < length ?n" by simp
  note a = normalizeArabic_shape [of ?a None, unfolded n]
  note b = normalizeArabic_shape [of "ascii ''Hello, world''" "Some \<lparr>surahs = []\<rparr>"]
  from b h have 1: "normalizeArabic (ascii ''Hello, world'') = [] \<and>
    identifyByCorpus (Some \<lparr>surahs = []\<rparr>) (ascii ''Hello, world'') = None" by blast
  from a have 2: "\<forall>c\<in>set ?n. isArabic c \<or> c = 32" by blast
  from a have "\<not> isSpace (hd ?n) \<and> \<not> isSpace (last ?n)" by blast
  then have 3: "\<not> isSpace 0x0628 \<and> \<not> isSpace 0x0644" by simp
  from a i have 4: "\<not> (isSpace (?n ! 3) \<and> isSpace (?n ! Suc 3))" by blast
  from h have lh: "list_all (\<lambda>c. \<not> isArabic c) (ascii ''Hello, world'')"
    unfolding list_all_iff .
  from 2 have l2: "list_all (\<lambda>c. isArabic c \<or> c = 32) ?n" unfolding list_all_iff .
  from lh 1 n l2 3 4 show ?thesis by blast
qed

section \<open>Properties of the N-gram Similarity Scorer\<close>

lemma jaccard_inter: "{x \<in> A. x \<in> B} = A \<inter> B" by auto

lemma jaccard_alt:
  assumes "finite A" "finite B"
  shows "jaccard A B =
    (if A \<union> B = {} then 0 else of_nat (card (A \<inter> B)) / of_nat (card (A \<union> B)))"
proof -
  have u: "card A + card B - card (A \<inter> B) = card (A \<union> B)"
    using card_Un_Int[OF assms] by simp
  have z: "card (A \<union> B) = 0 \<longleftrightarrow> A \<union> B = {}" using assms by simp
  show ?thesis
    unfolding jaccard_def Let_def jaccard_inter u using z by auto
qed

lemma jaccard_sym: "finite A \<Longrightarrow> finite B \<Longrightarrow> jaccard A B = jaccard B A"
  by (simp add: jaccard_alt Int_commute Un_commute)

lemma jaccard_range: 
  assumes "finite A" "finite B" shows "0 \<le> jaccard A B \<and> jaccard A B \<le> 1"
proof -
  have "card (A \<inter> B) \<le> card (A \<union> B)" using assms by (intro card_mono) auto
  then have "(of_nat (card (A \<inter> B)) :: rat) \<le> of_nat (card (A \<union> B))" by simp
  then show ?thesis using assms by (auto simp: jaccard_alt divide_le_eq_1)
qed

lemma jaccard_one:
  assumes "finite A" "finite B" shows "jaccard A B = 1 \<longleftrightarrow> A = B \<and> A \<noteq> {}"
proof (cases "A \<union> B = {}")
  case True then show ?thesis using assms by (auto simp: jaccard_alt)
next
  case False
  then have pos: "card (A \<union> B) \<noteq> 0" using assms by simp
  have "jaccard A B = 1 \<longleftrightarrow> card (A \<inter> B) = card (A \<union> B)"
    using False pos assms by (auto simp: jaccard_alt)
  also have "\<dots> \<longleftrightarrow> A \<inter> B = A \<union> B"
  proof
    assume "card (A \<inter> B) = card (A \<union> B)"
    moreover have "A \<inter> B \<subseteq> A \<union> B" by auto
    moreover have "finite (A \<union> B)" using assms by simp
    ultimately show "A \<inter> B = A \<union> B" by (metis card_subset_eq)
  qed simp
  also have "\<dots> \<longleftrightarrow> A = B \<and> A \<noteq> {}" using False by auto
  finally show ?thesis .
qed

lemma toTrigrams_short: "length s < 3 \<Longrightarrow> toTrigrams s = {}"
  by (auto simp: toTrigrams_def)

lemma toTrigrams_finite: "finite (toTrigrams s)" by (simp add: toTrigrams_def)

lemma toTrigrams_nonempty: "3 \<le> length s \<Longrightarrow> toTrigrams s \<noteq> {}"
  by (auto simp: toTrigrams_def)

lemma jaccard_empty: "jaccard {} {} = 0" by (simp add: jaccard_def)



lemma jaccard_set: "jaccard (set xs) (set ys) = jaccardList xs ys"
proof -
  have "{x \<in> set xs. x \<in> set ys} = set (filter (\<lambda>x. x \<in> set ys) (remdups xs))" by auto
  then have "card {x \<in> set xs. x \<in> set ys} = length (filter (\<lambda>x. x \<in> set ys) (remdups xs))"
    by (metis distinct_card distinct_filter distinct_remdups)
  then show ?thesis by (simp add: jaccard_def jaccardList_def Let_def length_remdups_card_conv)
qed

lemma jaccard_trigrams: "jaccard (toTrigrams a) (toTrigrams b) = jaccardList (trigramList a) (trigramList b)"
  unfolding toTrigrams_def trigramList_def[symmetric] by (rule jaccard_set)

text \<open>
  C9. For finite trigram sets \<open>A\<close> and \<open>B\<close>, \<open>jaccard A B\<close> is \<open>|A \<inter> B| / |A \<union> B|\<close>
  (and \<open>0\<close>, not an error, when the union is empty), is symmetric, lies in \<open>[0, 1]\<close>,
  and is \<open>1\<close> exactly when the two sets are identical and not empty; the trigram set
  of a string shorter than 3 is empty.
\<close>

theorem jaccard_properties:
  fixes A B :: "jstring set"
  assumes "finite A" and "finite B"
  shows "jaccard A B =
           (if A \<union> B = {} then 0 else of_nat (card (A \<inter> B)) / of_nat (card (A \<union> B))) \<and>
         jaccard A B = jaccard B A \<and>
         0 \<le> jaccard A B \<and> jaccard A B \<le> 1 \<and>
         (jaccard A B = 1 \<longleftrightarrow> A = B \<and> A \<noteq> {}) \<and>
         jaccard ({} :: jstring set) {} = 0 \<and>
         (\<forall>s. length s < 3 \<longrightarrow> toTrigrams s = {})"
  using jaccard_alt[OF assms] jaccard_sym[OF assms] jaccard_range[OF assms]
    jaccard_one[OF assms] jaccard_empty[where 'a = jstring] toTrigrams_short
  by blast

theorem jaccard_properties_witness:
  "finite (toTrigrams [1, 2, 3, 4]) \<and> finite (toTrigrams [2, 3, 4, 5]) \<and>
   jaccard (toTrigrams [1, 2, 3, 4]) (toTrigrams [2, 3, 4, 5]) = 1 / 3 \<and>
   jaccard (toTrigrams [2, 3, 4, 5]) (toTrigrams [1, 2, 3, 4]) = 1 / 3 \<and>
   toTrigrams [1, 2, 3, 4] \<noteq> toTrigrams [2, 3, 4, 5] \<and>
   length [1, 2 :: nat] < 3 \<and> toTrigrams [1, 2] = {}"
proof -
  let ?A = "toTrigrams [1, 2, 3, 4]" and ?B = "toTrigrams [2, 3, 4, 5]"
  have fa: "finite ?A" and fb: "finite ?B" by (rule toTrigrams_finite)+
  have v: "jaccard ?A ?B = 1 / 3"
    by (simp add: jaccard_trigrams jaccardList_def trigramList_def slice_def upt_conv_Cons Let_def)
  note p = jaccard_properties [OF fa fb]
  from p v have s: "jaccard ?B ?A = 1 / 3" by simp
  from p v have d: "?A \<noteq> ?B" by auto
  have l: "length [1, 2 :: nat] < 3" by simp
  from p l have e: "toTrigrams [1, 2] = {}" by blast
  from fa fb v s d l e show ?thesis by blast
qed

text \<open>
  C5, as stated, fails: the Latin string \<open>abc\<close> has length 3, normalizes to the empty
  string, its trigram set is empty, and the score of the empty set with itself is \<open>0\<close>.
\<close>

theorem similarity_reflexive_counterexample:
  "ascii ''abc'' \<noteq> [] \<and> length (ascii ''abc'') \<ge> 3 \<and>
   jaccard (toTrigrams (normalizeArabic (ascii ''abc'')))
           (toTrigrams (normalizeArabic (ascii ''abc''))) = 0 \<and>
   jaccard (toTrigrams (normalizeArabic (ascii ''abc'')))
           (toTrigrams (normalizeArabic (ascii ''abc''))) \<noteq> 1"
proof -
  have "\<forall>c\<in>set (ascii ''abc''). \<not> isArabic c" by (simp add: ascii_def isArabic_def)
  then have "normalizeArabic (ascii ''abc'') = []" by (rule normalizeArabic_nonArabic)
  then show ?thesis by (simp add: toTrigrams_def jaccard_def ascii_def)
qed

text \<open>
  C5, amended: for every string whose normalized form has length at least 3, the
  score of the trigram set of the normalized string with itself is exactly \<open>1\<close>.
\<close>

theorem similarity_reflexive:
  assumes "3 \<le> length (normalizeArabic s)"
  shows "jaccard (toTrigrams (normalizeArabic s)) (toTrigrams (normalizeArabic s)) = 1"
  using jaccard_one[OF toTrigrams_finite toTrigrams_finite] toTrigrams_nonempty[OF assms]
  by blast

theorem similarity_reflexive_witness:
  "3 \<le> length (normalizeArabic [0x0628, 0x0650, 0x0633, 0x0652, 0x0645, 0x0650]) \<and>
   jaccard (toTrigrams (normalizeArabic [0x0628, 0x0650, 0x0633, 0x0652, 0x0645, 0x0650]))
           (toTrigrams (normalizeArabic [0x0628, 0x0650, 0x0633, 0x0652, 0x0645, 0x0650])) = 1"
proof -
  have n: "normalizeArabic [0x0628, 0x0650, 0x0633, 0x0652, 0x0645, 0x0650] = [0x0628, 0x0633, 0x0645]"
    by (simp add: normalizeArabic_def trim_def isSpace_def isHarakat_def isMark_def isArabic_def
        foldAlif_def foldAlifMaqsura_def foldTaMarbuta_def otherToSpace_def)
  then have h: "3 \<le> length (normalizeArabic [0x0628, 0x0650, 0x0633, 0x0652, 0x0645, 0x0650])"
    by simp
  from similarity_reflexive [OF h] h show ?thesis by blast
qed

section \<open>Properties of the Corpus Candidate Index\<close>

lemma ayahLoop_done: "length vs \<le> i \<Longrightarrow> ayahLoop name vs i cands = cands"
  by (subst ayahLoop.simps) simp

lemma ayahLoop_step:
  "i < length vs \<Longrightarrow>
   ayahLoop name vs i cands = ayahLoop name vs (Suc i) (cands @ verseCandidates name vs i)"
  by (subst ayahLoop.simps) (simp add: Let_def verseCandidates_def)

lemma ayahLoop_eq:
  "i \<le> length vs \<Longrightarrow>
   ayahLoop name vs i cands = cands @ concat (map (verseCandidates name vs) [i..<length vs])"
proof (induction "length vs - i" arbitrary: i cands)
  case 0
  then show ?case by (simp add: ayahLoop_done)
next
  case (Suc n)
  then have lt: "i < length vs" and n: "n = length vs - Suc i" by simp_all
  from lt have u: "[i..<length vs] = i # [Suc i..<length vs]" by (simp add: upt_conv_Cons)
  from lt have le: "Suc i \<le> length vs" by simp
  show ?case
    unfolding ayahLoop_step[OF lt] Suc.hyps(1)[OF n le] u by simp
qed

lemma surahLoop_eq:
  "surahLoop ss si cands =
     cands @ concat (map (\<lambda>(si, s). chapterCandidates s si) (enumerate si ss))"
  by (induction ss arbitrary: si cands) (simp_all add: ayahLoop_eq chapterCandidates_def)

lemma buildCandidates_spec: "buildCandidates c = specCandidates c"
  by (simp add: buildCandidates_def specCandidates_def surahLoop_eq)

lemma length_verseCandidates:
  "length (verseCandidates name vs i) = (if i + 1 < length vs then 2 else 1)"
  by (simp add: verseCandidates_def)

lemma length_verses_upto:
  "k \<le> length vs \<Longrightarrow>
   length (concat (map (verseCandidates name vs) [0..<k])) + (if k = length vs \<and> 0 < k then 1 else 0) = 2 * k"
  by (induction k) (auto simp: length_verseCandidates)

lemma length_chapterCandidates:
  "length (chapterCandidates s si) + (if s_ayahs s \<noteq> [] then 1 else 0) = 2 * length (s_ayahs s)"
  using length_verses_upto[of "length (s_ayahs s)" "s_ayahs s" "arName s si"]
  by (auto simp: chapterCandidates_def)

lemma length_enum_chapters:
  "length (concat (map (\<lambda>(si, s). chapterCandidates s si) (enumerate k ss)))
     + length (filter (\<lambda>s. s_ayahs s \<noteq> []) ss)
   = 2 * sum_list (map (\<lambda>s. length (s_ayahs s)) ss)"
proof (induction ss arbitrary: k)
  case Nil then show ?case by simp
next
  case (Cons s ss)
  show ?case using Cons.IH[of "Suc k"] length_chapterCandidates[of s k]
    by (simp split: if_splits)
qed

lemma length_buildCandidates:
  "length (buildCandidates c) + length (filter (\<lambda>s. s_ayahs s \<noteq> []) (surahs c)) = 2 * totalVerses c"
  by (simp add: buildCandidates_spec specCandidates_def totalVerses_def length_enum_chapters)


lemma pair_in_verseCandidates:
  assumes "cand \<in> set (verseCandidates name vs i)" and "c_ayahStart cand \<noteq> None"
  shows "Suc i < length vs \<and> cand = pair name i (v_text (vs ! i)) (v_text (vs ! Suc i))"
  using assms by (auto simp: verseCandidates_def single_def split: if_splits)

lemma pair_in_specCandidates:
  assumes "cand \<in> set (specCandidates c)" and "c_ayahStart cand \<noteq> None"
  shows "\<exists>si i. si < length (surahs c) \<and> Suc i < length (s_ayahs (surahs c ! si)) \<and>
           cand = pair (arName (surahs c ! si) si) i
                    (v_text (s_ayahs (surahs c ! si) ! i))
                    (v_text (s_ayahs (surahs c ! si) ! Suc i))"
proof -
  from assms(1) obtain si s where
    e: "(si, s) \<in> set (enumerate 0 (surahs c))" and m: "cand \<in> set (chapterCandidates s si)"
    by (auto simp: specCandidates_def)
  from e have si: "si < length (surahs c)" and s: "s = surahs c ! si"
    by (auto simp: in_set_enumerate_eq)
  from m obtain i where "cand \<in> set (verseCandidates (arName s si) (s_ayahs s) i)"
    by (auto simp: chapterCandidates_def)
  from pair_in_verseCandidates[OF this assms(2)] si s show ?thesis by blast
qed

lemma showNat_digit: "n < 10 \<Longrightarrow> showNat n = [48 + n]"
  by (subst showNat.simps) simp

lemma buildCandidates_corpusTwoChapters:
  "buildCandidates corpusTwoChapters =
     [single fatiha 0 bismillah, pair fatiha 0 bismillah alhamd, single fatiha 1 alhamd,
      single [0x0633, 0x0648, 0x0631, 0x0629, 32, 50] 0 bismillah]"
  by (simp add: corpusTwoChapters_def buildCandidates_spec specCandidates_def
      chapterCandidates_def verseCandidates_def enumerate_eq_zip upt_conv_Cons arName_def
      showNat_digit fatiha_def)

text \<open>
  C6, as stated, fails: a chapter without verses contributes no candidate, yet counts
  in \<open>C\<close>. With one verse across two chapters the index holds one candidate, not
  \<open>2 * 1 - 2 = 0\<close>.
\<close>

theorem buildCandidates_count_counterexample:
  "totalVerses corpusWithEmptyChapter = 1 \<and> chapterCount corpusWithEmptyChapter = 2 \<and>
   length (buildCandidates corpusWithEmptyChapter) = 1 \<and>
   int (length (buildCandidates corpusWithEmptyChapter))
     \<noteq> 2 * int (totalVerses corpusWithEmptyChapter) - int (chapterCount corpusWithEmptyChapter)"
  by (simp add: corpusWithEmptyChapter_def totalVerses_def chapterCount_def buildCandidates_spec
      specCandidates_def chapterCandidates_def verseCandidates_def enumerate_eq_zip upt_conv_Cons)

text \<open>
  C6, amended: for \<open>N\<close> verses in total, \<open>buildCandidates\<close> emits \<open>2N - C'\<close>
  candidates, \<open>C'\<close> the number of chapters that have at least one verse; so \<open>2N - C\<close>
  for a corpus of \<open>C\<close> chapters none of which is empty. Every paired candidate spans two
  adjacent verses \<open>i + 1\<close>, \<open>i + 2\<close> of one and the same chapter, with their texts
  joined by a space. The order is chapter order, then verse order, each verse's single
  candidate before its pair.
\<close>

theorem buildCandidates_index:
  "length (buildCandidates c) + length (filter (\<lambda>s. s_ayahs s \<noteq> []) (surahs c))
     = 2 * totalVerses c \<and>
   ((\<forall>s\<in>set (surahs c). s_ayahs s \<noteq> []) \<longrightarrow>
      int (length (buildCandidates c)) = 2 * int (totalVerses c) - int (chapterCount c)) \<and>
   (\<forall>cand\<in>set (buildCandidates c). c_ayahStart cand \<noteq> None \<longrightarrow>
      (\<exists>si i. si < length (surahs c) \<and> Suc i < length (s_ayahs (surahs c ! si)) \<and>
         c_surah cand = arName (surahs c ! si) si \<and>
         c_ayah cand = None \<and>
         c_ayahStart cand = Some (int i + 1) \<and> c_ayahEnd cand = Some (int i + 2) \<and>
         c_text cand = v_text (s_ayahs (surahs c ! si) ! i) @ [32]
                        @ v_text (s_ayahs (surahs c ! si) ! Suc i))) \<and>
   buildCandidates c = specCandidates c"
proof -
  have 1: "length (buildCandidates c) + length (filter (\<lambda>s. s_ayahs s \<noteq> []) (surahs c))
     = 2 * totalVerses c" by (rule length_buildCandidates)
  have 2: "(\<forall>s\<in>set (surahs c). s_ayahs s \<noteq> []) \<longrightarrow>
      int (length (buildCandidates c)) = 2 * int (totalVerses c) - int (chapterCount c)"
  proof
    assume "\<forall>s\<in>set (surahs c). s_ayahs s \<noteq> []"
    then have "filter (\<lambda>s. s_ayahs s \<noteq> []) (surahs c) = surahs c" by (simp add: filter_id_conv)
    with 1 have "length (buildCandidates c) + chapterCount c = 2 * totalVerses c"
      by (simp add: chapterCount_def)
    then show "int (length (buildCandidates c)) = 2 * int (totalVerses c) - int (chapterCount c)"
      by linarith
  qed
  have 3: "\<forall>cand\<in>set (buildCandidates c). c_ayahStart cand \<noteq> None \<longrightarrow>
      (\<exists>si i. si < length (surahs c) \<and> Suc i < length (s_ayahs (surahs c ! si)) \<and>
         c_surah cand = arName (surahs c ! si) si \<and>
         c_ayah cand = None \<and>
         c_ayahStart cand = Some (int i + 1) \<and> c_ayahEnd cand = Some (int i + 2) \<and>
         c_text cand = v_text (s_ayahs (surahs c ! si) ! i) @ [32]
                        @ v_text (s_ayahs (surahs c ! si) ! Suc i))"
  proof (intro ballI impI)
    fix cand
    assume "cand \<in> set (buildCandidates c)" and p: "c_ayahStart cand \<noteq> None"
    then have "cand \<in> set (specCandidates c)" by (simp add: buildCandidates_spec)
    from pair_in_specCandidates[OF this p] obtain si i where
      "si < length (surahs c)" "Suc i < length (s_ayahs (surahs c ! si))"
      "cand = pair (arName (surahs c ! si) si) i
                    (v_text (s_ayahs (surahs c ! si) ! i))
                    (v_text (s_ayahs (surahs c ! si) ! Suc i))" by blast
    then show "\<exists>si i. si < length (surahs c) \<and> Suc i < length (s_ayahs (surahs c ! si)) \<and>
         c_surah cand = arName (surahs c ! si) si \<and>
         c_ayah cand = None \<and>
         c_ayahStart cand = Some (int i + 1) \<and> c_ayahEnd cand = Some (int i + 2) \<and>
         c_text cand = v_text (s_ayahs (surahs c ! si) ! i) @ [32]
                        @ v_text (s_ayahs (surahs c ! si) ! Suc i)"
      by (intro exI[of _ si] exI[of _ i]) (simp add: pair_def)
  qed
  from 1 2 3 buildCandidates_spec show ?thesis by blast
qed

theorem buildCandidates_index_witness:
  "list_all (\<lambda>s. s_ayahs s \<noteq> []) (surahs corpusTwoChapters) \<and>
   totalVerses corpusTwoChapters = 3 \<and> chapterCount corpusTwoChapters = 2 \<and>
   int (length (buildCandidates corpusTwoChapters)) = 2 * 3 - 2 \<and>
   buildCandidates corpusTwoChapters ! 1 = pair fatiha 0 bismillah alhamd \<and>
   c_ayahStart (buildCandidates corpusTwoChapters ! 1) \<noteq> None \<and>
   (\<exists>si i. si < length (surahs corpusTwoChapters) \<and>
      Suc i < length (s_ayahs (surahs corpusTwoChapters ! si)) \<and>
      c_ayahStart (buildCandidates corpusTwoChapters ! 1) = Some (int i + 1) \<and>
      c_ayahEnd (buildCandidates corpusTwoChapters ! 1) = Some (int i + 2))"
proof -
  let ?c = corpusTwoChapters
  note t = buildCandidates_index [of ?c]
  have h: "\<forall>s\<in>set (surahs ?c). s_ayahs s \<noteq> []" by (simp add: corpusTwoChapters_def)
  have n: "totalVerses ?c = 3" and k: "chapterCount ?c = 2"
    by (simp_all add: corpusTwoChapters_def totalVerses_def chapterCount_def)
  from t h have "int (length (buildCandidates ?c)) = 2 * int (totalVerses ?c) - int (chapterCount ?c)"
    by blast
  then have 1: "int (length (buildCandidates ?c)) = 2 * 3 - 2" unfolding n k by simp
  have 2: "buildCandidates ?c ! 1 = pair fatiha 0 bismillah alhamd"
    by (simp add: buildCandidates_corpusTwoChapters)
  then have 3: "c_ayahStart (buildCandidates ?c ! 1) \<noteq> None" by (simp add: pair_def)
  have m: "buildCandidates ?c ! 1 \<in> set (buildCandidates ?c)"
    by (simp add: buildCandidates_corpusTwoChapters)
  from t m 3 have "\<exists>si i. si < length (surahs ?c) \<and> Suc i < length (s_ayahs (surahs ?c ! si)) \<and>
         c_surah (buildCandidates ?c ! 1) = arName (surahs ?c ! si) si \<and>
         c_ayah (buildCandidates ?c ! 1) = None \<and>
         c_ayahStart (buildCandidates ?c ! 1) = Some (int i + 1) \<and>
         c_ayahEnd (buildCandidates ?c ! 1) = Some (int i + 2) \<and>
         c_text (buildCandidates ?c ! 1) = v_text (s_ayahs (surahs ?c ! si) ! i) @ [32]
                        @ v_text (s_ayahs (surahs ?c ! si) ! Suc i)" by blast
  then have 4: "\<exists>si i. si < length (surahs ?c) \<and> Suc i < length (s_ayahs (surahs ?c ! si)) \<and>
      c_ayahStart (buildCandidates ?c ! 1) = Some (int i + 1) \<and>
      c_ayahEnd (buildCandidates ?c ! 1) = Some (int i + 2)" by blast
  from h have lh: "list_all (\<lambda>s. s_ayahs s \<noteq> []) (surahs ?c)" unfolding list_all_iff .
  from lh n k 1 2 3 4 show ?thesis by blast
qed

section \<open>Properties of the Local Matcher\<close>

lemma scan_Cons_skip: "\<not> scorable c \<Longrightarrow> scan tSet (c # cs) best = scan tSet cs best"
  by (simp add: scorable_def)

lemma scan_Cons_first:
  "scorable c \<Longrightarrow> scan tSet (c # cs) None = scan tSet cs (Some (c, scoreOf tSet c))"
  by (simp add: scorable_def scoreOf_def Let_def)

lemma scan_Cons_better:
  "scorable c \<Longrightarrow> scoreOf tSet c > bsc \<Longrightarrow>
   scan tSet (c # cs) (Some (b, bsc)) = scan tSet cs (Some (c, scoreOf tSet c))"
  by (simp add: scorable_def scoreOf_def Let_def)

lemma scan_Cons_keep:
  "scorable c \<Longrightarrow> scoreOf tSet c \<le> bsc \<Longrightarrow>
   scan tSet (c # cs) (Some (b, bsc)) = scan tSet cs (Some (b, bsc))"
  by (simp add: scorable_def scoreOf_def Let_def)

declare scan.simps(2) [simp del]

lemma scan_Some:
  "scan tSet cs (Some (b0, s0)) = r \<Longrightarrow>
   (r = Some (b0, s0) \<and> (\<forall>c\<in>set cs. scorable c \<longrightarrow> scoreOf tSet c \<le> s0)) \<or>
   (\<exists>pre b post. cs = pre @ b # post \<and> r = Some (b, scoreOf tSet b) \<and> scorable b \<and>
      s0 < scoreOf tSet b \<and>
      (\<forall>c\<in>set pre. scorable c \<longrightarrow> scoreOf tSet c < scoreOf tSet b) \<and>
      (\<forall>c\<in>set post. scorable c \<longrightarrow> scoreOf tSet c \<le> scoreOf tSet b))"
proof (induction cs arbitrary: b0 s0)
  case Nil
  then show ?case by simp
next
  case (Cons c cs)
  show ?case
  proof (cases "scorable c")
    case False
    with Cons.prems have "scan tSet cs (Some (b0, s0)) = r" by (simp add: scan_Cons_skip)
    from Cons.IH[OF this] show ?thesis
    proof
      assume "r = Some (b0, s0) \<and> (\<forall>c\<in>set cs. scorable c \<longrightarrow> scoreOf tSet c \<le> s0)"
      with False show ?thesis by auto
    next
      assume "\<exists>pre b post. cs = pre @ b # post \<and> r = Some (b, scoreOf tSet b) \<and> scorable b \<and>
        s0 < scoreOf tSet b \<and>
        (\<forall>c\<in>set pre. scorable c \<longrightarrow> scoreOf tSet c < scoreOf tSet b) \<and>
        (\<forall>c\<in>set post. scorable c \<longrightarrow> scoreOf tSet c \<le> scoreOf tSet b)"
      then obtain pre b post where d: "cs = pre @ b # post" "r = Some (b, scoreOf tSet b)" "scorable b"
        "s0 < scoreOf tSet b"
        "\<forall>c\<in>set pre. scorable c \<longrightarrow> scoreOf tSet c < scoreOf tSet b"
        "\<forall>c\<in>set post. scorable c \<longrightarrow> scoreOf tSet c \<le> scoreOf tSet b" by blast
      have "c # cs = (c # pre) @ b # post" using d(1) by simp
      moreover have "\<forall>x\<in>set (c # pre). scorable x \<longrightarrow> scoreOf tSet x < scoreOf tSet b"
        using d(5) False by simp
      ultimately show ?thesis using d by blast
    qed
  next
    case True
    show ?thesis
    proof (cases "scoreOf tSet c > s0")
      case better: True
      with True Cons.prems have "scan tSet cs (Some (c, scoreOf tSet c)) = r"
        by (simp add: scan_Cons_better)
      from Cons.IH[OF this] show ?thesis
      proof
        assume a: "r = Some (c, scoreOf tSet c) \<and> (\<forall>x\<in>set cs. scorable x \<longrightarrow> scoreOf tSet x \<le> scoreOf tSet c)"
        have "c # cs = [] @ c # cs" by simp
        with a True better show ?thesis by (metis empty_iff list.set(1))
      next
        assume "\<exists>pre b post. cs = pre @ b # post \<and> r = Some (b, scoreOf tSet b) \<and> scorable b \<and>
          scoreOf tSet c < scoreOf tSet b \<and>
          (\<forall>c\<in>set pre. scorable c \<longrightarrow> scoreOf tSet c < scoreOf tSet b) \<and>
          (\<forall>c\<in>set post. scorable c \<longrightarrow> scoreOf tSet c \<le> scoreOf tSet b)"
        then obtain pre b post where d: "cs = pre @ b # post" "r = Some (b, scoreOf tSet b)" "scorable b"
          "scoreOf tSet c < scoreOf tSet b"
          "\<forall>c\<in>set pre. scorable c \<longrightarrow> scoreOf tSet c < scoreOf tSet b"
          "\<forall>c\<in>set post. scorable c \<longrightarrow> scoreOf tSet c \<le> scoreOf tSet b" by blast
        have "c # cs = (c # pre) @ b # post" using d(1) by simp
        moreover have "\<forall>x\<in>set (c # pre). scorable x \<longrightarrow> scoreOf tSet x < scoreOf tSet b"
          using d(4,5) by simp
        moreover have "s0 < scoreOf tSet b" using better d(4) by simp
        ultimately show ?thesis using d by blast
      qed
    next
      case keep: False
      then have le: "scoreOf tSet c \<le> s0" by simp
      with True Cons.prems have "scan tSet cs (Some (b0, s0)) = r" by (simp add: scan_Cons_keep)
      from Cons.IH[OF this] show ?thesis
      proof
        assume "r = Some (b0, s0) \<and> (\<forall>c\<in>set cs. scorable c \<longrightarrow> scoreOf tSet c \<le> s0)"
        with le show ?thesis by auto
      next
        assume "\<exists>pre b post. cs = pre @ b # post \<and> r = Some (b, scoreOf tSet b) \<and> scorable b \<and>
          s0 < scoreOf tSet b \<and>
          (\<forall>c\<in>set pre. scorable c \<longrightarrow> scoreOf tSet c < scoreOf tSet b) \<and>
          (\<forall>c\<in>set post. scorable c \<longrightarrow> scoreOf tSet c \<le> scoreOf tSet b)"
        then obtain pre b post where d: "cs = pre @ b # post" "r = Some (b, scoreOf tSet b)" "scorable b"
          "s0 < scoreOf tSet b"
          "\<forall>c\<in>set pre. scorable c \<longrightarrow> scoreOf tSet c < scoreOf tSet b"
          "\<forall>c\<in>set post. scorable c \<longrightarrow> scoreOf tSet c \<le> scoreOf tSet b" by blast
        have "c # cs = (c # pre) @ b # post" using d(1) by simp
        moreover have "\<forall>x\<in>set (c # pre). scorable x \<longrightarrow> scoreOf tSet x < scoreOf tSet b"
          using d(4,5) le by auto
        ultimately show ?thesis using d by blast
      qed
    qed
  qed
qed

lemma scan_None_iff: "scan tSet cs None = None \<longleftrightarrow> (\<forall>c\<in>set cs. \<not> scorable c)"
proof (induction cs)
  case Nil then show ?case by simp
next
  case (Cons c cs)
  show ?case
  proof (cases "scorable c")
    case False with Cons show ?thesis by (simp add: scan_Cons_skip)
  next
    case True
    have "scan tSet cs (Some (c, scoreOf tSet c)) \<noteq> None"
      using scan_Some[OF refl, of tSet cs c "scoreOf tSet c"] by auto
    with True show ?thesis by (auto simp: scan_Cons_first)
  qed
qed

lemma scan_first:
  "scan tSet cs None = Some (b, sc) \<Longrightarrow>
   \<exists>pre post. cs = pre @ b # post \<and> scorable b \<and> sc = scoreOf tSet b \<and>
      (\<forall>c\<in>set pre. scorable c \<longrightarrow> scoreOf tSet c < sc) \<and>
      (\<forall>c\<in>set post. scorable c \<longrightarrow> scoreOf tSet c \<le> sc)"
proof (induction cs)
  case Nil then show ?case by simp
next
  case (Cons c cs)
  show ?case
  proof (cases "scorable c")
    case False
    with Cons.prems have "scan tSet cs None = Some (b, sc)" by (simp add: scan_Cons_skip)
    from Cons.IH[OF this] obtain pre post where d: "cs = pre @ b # post" "scorable b" "sc = scoreOf tSet b"
      "\<forall>c\<in>set pre. scorable c \<longrightarrow> scoreOf tSet c < sc"
      "\<forall>c\<in>set post. scorable c \<longrightarrow> scoreOf tSet c \<le> sc" by blast
    have "c # cs = (c # pre) @ b # post" using d(1) by simp
    moreover have "\<forall>x\<in>set (c # pre). scorable x \<longrightarrow> scoreOf tSet x < sc" using d(4) False by simp
    ultimately show ?thesis using d by blast
  next
    case True
    with Cons.prems have s: "scan tSet cs (Some (c, scoreOf tSet c)) = Some (b, sc)"
      by (simp add: scan_Cons_first)
    from scan_Some[OF s] show ?thesis
    proof
      assume a: "Some (b, sc) = Some (c, scoreOf tSet c) \<and> (\<forall>x\<in>set cs. scorable x \<longrightarrow> scoreOf tSet x \<le> scoreOf tSet c)"
      have "c # cs = [] @ c # cs" by simp
      with a True show ?thesis by (metis Pair_inject empty_iff list.set(1) option.inject)
    next
      assume "\<exists>pre b' post. cs = pre @ b' # post \<and> Some (b, sc) = Some (b', scoreOf tSet b') \<and> scorable b' \<and>
          scoreOf tSet c < scoreOf tSet b' \<and>
          (\<forall>c\<in>set pre. scorable c \<longrightarrow> scoreOf tSet c < scoreOf tSet b') \<and>
          (\<forall>c\<in>set post. scorable c \<longrightarrow> scoreOf tSet c \<le> scoreOf tSet b')"
      then obtain pre post where d: "cs = pre @ b # post" "sc = scoreOf tSet b" "scorable b"
          "scoreOf tSet c < sc"
          "\<forall>c\<in>set pre. scorable c \<longrightarrow> scoreOf tSet c < sc"
          "\<forall>c\<in>set post. scorable c \<longrightarrow> scoreOf tSet c \<le> sc" by auto
      have "c # cs = (c # pre) @ b # post" using d(1) by simp
      moreover have "\<forall>x\<in>set (c # pre). scorable x \<longrightarrow> scoreOf tSet x < sc" using d(4,5) by simp
      ultimately show ?thesis using d by blast
    qed
  qed
qed


lemmas norm_eval = normalizeArabic_def trim_def isSpace_def isHarakat_def isMark_def isArabic_def
  foldAlif_def foldAlifMaqsura_def foldTaMarbuta_def otherToSpace_def

lemmas score_eval = scoreOf_def jaccard_trigrams jaccardList_def trigramList_def slice_def
  upt_conv_Cons Let_def

lemma norm_bismillah: "normalizeArabic bismillah = bismillah"
  by (simp add: bismillah_def norm_eval)

lemma norm_alhamd: "normalizeArabic alhamd = alhamd"
  by (simp add: alhamd_def norm_eval)

lemma norm_pair: "normalizeArabic (bismillah @ [32] @ alhamd) = bismillah @ [32] @ alhamd"
  by (simp add: bismillah_def alhamd_def norm_eval)

lemma scorable_examples:
  "scorable (single n i bismillah)" "scorable (single n i alhamd)"
  "scorable (pair n i bismillah alhamd)"
  unfolding scorable_def single_def pair_def candidate.simps norm_bismillah norm_alhamd norm_pair
  by (simp_all add: bismillah_def alhamd_def)

lemma score_bismillah_single:
  "scoreOf (toTrigrams bismillah) (single n i bismillah) = 1"
  unfolding scoreOf_def single_def candidate.simps norm_bismillah
  by (simp add: bismillah_def score_eval)

lemma score_bismillah_alhamd:
  "scoreOf (toTrigrams bismillah) (single n i alhamd) = 1 / 12"
  unfolding scoreOf_def single_def candidate.simps norm_alhamd
  by (simp add: bismillah_def alhamd_def score_eval)

lemma score_bismillah_pair:
  "scoreOf (toTrigrams bismillah) (pair n i bismillah alhamd) = 3 / 7"
  unfolding scoreOf_def pair_def candidate.simps norm_pair
  by (simp add: bismillah_def alhamd_def score_eval)


lemma scan_corpusTwoChapters:
  "scan (toTrigrams bismillah) (buildCandidates corpusTwoChapters) None
     = Some (single fatiha 0 bismillah, 1)"
  unfolding buildCandidates_corpusTwoChapters
  by (simp add: scan_Cons_first scan_Cons_keep scorable_examples score_bismillah_single
      score_bismillah_alhamd score_bismillah_pair)

text \<open>
  C7. Best-candidate tracking is first-write-wins: a scored candidate whose score equals
  the current best leaves the current best in place; hence the winner of a scan is the
  first candidate, in iteration order, that reaches the highest score: every scored
  candidate before it scores strictly less, every one after it at most as much. A scan
  over a list with a scored candidate does produce a winner, and the Local Matcher's
  result is built from the winner of the scan over \<open>buildCandidates\<close>.
\<close>

theorem scan_first_write_wins:
  "(scorable c \<and> scoreOf tSet c = bsc \<longrightarrow>
      scan tSet (c # cs) (Some (b, bsc)) = scan tSet cs (Some (b, bsc))) \<and>
   (scan tSet cands None = Some (w, sc) \<longrightarrow>
      (\<exists>pre post. cands = pre @ w # post \<and> scorable w \<and> sc = scoreOf tSet w \<and>
         (\<forall>x\<in>set pre. scorable x \<longrightarrow> scoreOf tSet x < sc) \<and>
         (\<forall>x\<in>set post. scorable x \<longrightarrow> scoreOf tSet x \<le> sc))) \<and>
   ((\<exists>x\<in>set cands. scorable x) \<longrightarrow> scan tSet cands None \<noteq> None) \<and>
   (normalizeArabic t \<noteq> [] \<longrightarrow>
      identifyByCorpus (Some corpus) t
        = fromBest (scan (toTrigrams (normalizeArabic t)) (buildCandidates corpus) None))"
proof -
  have 1: "scorable c \<and> scoreOf tSet c = bsc \<longrightarrow>
      scan tSet (c # cs) (Some (b, bsc)) = scan tSet cs (Some (b, bsc))"
    by (simp add: scan_Cons_keep)
  have 2: "scan tSet cands None = Some (w, sc) \<longrightarrow>
      (\<exists>pre post. cands = pre @ w # post \<and> scorable w \<and> sc = scoreOf tSet w \<and>
         (\<forall>x\<in>set pre. scorable x \<longrightarrow> scoreOf tSet x < sc) \<and>
         (\<forall>x\<in>set post. scorable x \<longrightarrow> scoreOf tSet x \<le> sc))"
    using scan_first by blast
  have 3: "(\<exists>x\<in>set cands. scorable x) \<longrightarrow> scan tSet cands None \<noteq> None"
    using scan_None_iff by blast
  have 4: "normalizeArabic t \<noteq> [] \<longrightarrow>
      identifyByCorpus (Some corpus) t
        = fromBest (scan (toTrigrams (normalizeArabic t)) (buildCandidates corpus) None)"
    by (simp add: identifyByCorpus_def identifyByCorpusRun_def Let_def)
  from 1 2 3 4 show ?thesis by blast
qed

theorem scan_first_write_wins_witness:
  "scorable (single fatiha 0 bismillah) \<and>
   scoreOf (toTrigrams bismillah) (single [0x0633, 0x0648, 0x0631, 0x0629, 32, 50] 0 bismillah) = 1 \<and>
   scan (toTrigrams bismillah) [single [0x0633, 0x0648, 0x0631, 0x0629, 32, 50] 0 bismillah]
        (Some (single fatiha 0 bismillah, 1))
     = Some (single fatiha 0 bismillah, 1) \<and>
   scan (toTrigrams bismillah) (buildCandidates corpusTwoChapters) None
     = Some (single fatiha 0 bismillah, 1) \<and>
   (\<exists>pre post. buildCandidates corpusTwoChapters = pre @ single fatiha 0 bismillah # post \<and>
      (\<forall>x\<in>set pre. scorable x \<longrightarrow> scoreOf (toTrigrams bismillah) x < 1) \<and>
      (\<forall>x\<in>set post. scorable x \<longrightarrow> scoreOf (toTrigrams bismillah) x \<le> 1)) \<and>
   normalizeArabic bismillah = bismillah \<and>
   identifyByCorpus (Some corpusTwoChapters) bismillah
     = fromBest (Some (single fatiha 0 bismillah, 1))"
proof -
  let ?T = "toTrigrams bismillah"
  let ?c0 = "single fatiha 0 bismillah"
  let ?c3 = "single [0x0633, 0x0648, 0x0631, 0x0629, 32, 50] 0 bismillah"
  note th = scan_first_write_wins [of ?c3 ?T 1 "[]" ?c0 "buildCandidates corpusTwoChapters"
      ?c0 1 bismillah corpusTwoChapters]
  have a: "scorable ?c0" and a3: "scorable ?c3" by (rule scorable_examples)+
  have b: "scoreOf ?T ?c3 = 1" by (rule score_bismillah_single)
  from th a3 b have "scan ?T [?c3] (Some (?c0, 1)) = scan ?T [] (Some (?c0, 1))" by blast
  then have c: "scan ?T [?c3] (Some (?c0, 1)) = Some (?c0, 1)" by simp
  have d: "scan ?T (buildCandidates corpusTwoChapters) None = Some (?c0, 1)"
    by (rule scan_corpusTwoChapters)
  from th d have e: "\<exists>pre post. buildCandidates corpusTwoChapters = pre @ ?c0 # post \<and>
      (\<forall>x\<in>set pre. scorable x \<longrightarrow> scoreOf ?T x < 1) \<and>
      (\<forall>x\<in>set post. scorable x \<longrightarrow> scoreOf ?T x \<le> 1)" by blast
  have n: "normalizeArabic bismillah = bismillah" by (rule norm_bismillah)
  have ne: "normalizeArabic bismillah \<noteq> []" unfolding n by (simp add: bismillah_def)
  from th ne have "identifyByCorpus (Some corpusTwoChapters) bismillah
        = fromBest (scan (toTrigrams (normalizeArabic bismillah)) (buildCandidates corpusTwoChapters) None)"
    by blast
  then have f: "identifyByCorpus (Some corpusTwoChapters) bismillah = fromBest (Some (?c0, 1))"
    unfolding n d .
  from a b c d e n f show ?thesis by blast
qed


lemma candidate_shape:
  assumes "b \<in> set (buildCandidates c)"
  shows "(\<exists>n i t. b = single n i t) \<or> (\<exists>n i t1 t2. b = pair n i t1 t2)"
proof -
  from assms obtain si s where m: "b \<in> set (chapterCandidates s si)"
    by (auto simp: buildCandidates_spec specCandidates_def)
  then obtain i where "b \<in> set (verseCandidates (arName s si) (s_ayahs s) i)"
    by (auto simp: chapterCandidates_def)
  then have "b = single (arName s si) i (v_text (s_ayahs s ! i)) \<or>
      b = pair (arName s si) i (v_text (s_ayahs s ! i)) (v_text (s_ayahs s ! (i + 1)))"
    by (auto simp: verseCandidates_def split: if_splits)
  then show ?thesis by blast
qed

lemma fromBest_Some:
  assumes "fromBest best = Some r"
  shows "\<exists>b sc. best = Some (b, sc) \<and> 12 / 100 \<le> sc"
  using assms by (auto simp: fromBest_def split: option.splits if_splits)

lemma fromBest_single:
  "fromBest (Some (single n i t, sc)) = Some r \<Longrightarrow>
   r = \<lparr>surah = n, arabic = t, translation = [0x2014], ayah = Some (int i + 1),
        ayahStart = None, ayahEnd = None, ayahs = None\<rparr>"
  by (auto simp: fromBest_def single_def truthy_def split: if_splits)

lemma fromBest_pair:
  "fromBest (Some (pair n i t1 t2, sc)) = Some r \<Longrightarrow>
   r = \<lparr>surah = n, arabic = t1 @ [32] @ t2, translation = [0x2014], ayah = None,
        ayahStart = Some (int i + 1), ayahEnd = Some (int i + 2), ayahs = None\<rparr>"
  by (auto simp: fromBest_def pair_def truthy_def split: if_splits)

lemma fromBest_built:
  assumes "fromBest (Some (b, sc)) = Some r" and "b \<in> set (buildCandidates c)"
  shows "surah r = c_surah b \<and> arabic r = c_text b \<and> translation r = [0x2014] \<and>
         ayah r = c_ayah b \<and> ayahStart r = c_ayahStart b \<and> ayahEnd r = c_ayahEnd b \<and>
         ayahs r = None"
  using candidate_shape[OF assms(2)]
proof
  assume "\<exists>n i t. b = single n i t"
  then obtain n i t where b: "b = single n i t" by blast
  from fromBest_single[OF assms(1)[unfolded b]] show ?thesis by (simp add: b single_def)
next
  assume "\<exists>n i t1 t2. b = pair n i t1 t2"
  then obtain n i t1 t2 where b: "b = pair n i t1 t2" by blast
  from fromBest_pair[OF assms(1)[unfolded b]] show ?thesis by (simp add: b pair_def)
qed

lemma identifyByCorpus_Some:
  assumes "identifyByCorpus loaded t = Some r"
  shows "\<exists>c b. loaded = Some c \<and> b \<in> set (buildCandidates c) \<and> scorable b \<and>
           12 / 100 \<le> jaccard (toTrigrams (normalizeArabic t)) (toTrigrams (normalizeArabic (c_text b))) \<and>
           surah r = c_surah b \<and> arabic r = c_text b \<and> translation r = [0x2014] \<and>
           ayah r = c_ayah b \<and> ayahStart r = c_ayahStart b \<and> ayahEnd r = c_ayahEnd b \<and>
           ayahs r = None"
proof -
  from assms obtain c where l: "loaded = Some c"
    by (cases loaded) (auto simp: identifyByCorpus_def identifyByCorpusRun_def)
  let ?T = "toTrigrams (normalizeArabic t)"
  from assms l have ne: "normalizeArabic t \<noteq> []"
    by (auto simp: identifyByCorpus_def identifyByCorpusRun_def Let_def split: if_splits)
  with assms l have f: "fromBest (scan ?T (buildCandidates c) None) = Some r"
    by (simp add: identifyByCorpus_def identifyByCorpusRun_def Let_def)
  from fromBest_Some[OF f] obtain b sc where
    s: "scan ?T (buildCandidates c) None = Some (b, sc)" and t: "12 / 100 \<le> sc" by blast
  from scan_first[OF s] obtain pre post where
    d: "buildCandidates c = pre @ b # post" "scorable b" "sc = scoreOf ?T b" by blast
  from d(1) have m: "b \<in> set (buildCandidates c)" by simp
  from f s have "fromBest (Some (b, sc)) = Some r" by simp
  from fromBest_built[OF this m] l m d(2) t d(3) show ?thesis
    unfolding scoreOf_def by blast
qed

lemma identifyByCorpus_below:
  assumes "\<forall>b\<in>set (buildCandidates c). scorable b \<longrightarrow>
             scoreOf (toTrigrams (normalizeArabic t)) b < 12 / 100"
  shows "identifyByCorpus (Some c) t = None"
proof (rule ccontr)
  assume "identifyByCorpus (Some c) t \<noteq> None"
  then obtain r where "identifyByCorpus (Some c) t = Some r" by blast
  from identifyByCorpus_Some[OF this] obtain b where
    "b \<in> set (buildCandidates c)" "scorable b"
    "12 / 100 \<le> scoreOf (toTrigrams (normalizeArabic t)) b"
    unfolding scoreOf_def by blast
  with assms show False by fastforce
qed


lemma norm_qalaq: "normalizeArabic [0x0642, 0x0644, 0x0642] = [0x0642, 0x0644, 0x0642]"
  by (simp add: norm_eval)

lemma score_qalaq:
  "scoreOf (toTrigrams [0x0642, 0x0644, 0x0642]) (single n i bismillah) = 0"
  "scoreOf (toTrigrams [0x0642, 0x0644, 0x0642]) (single n i alhamd) = 0"
  "scoreOf (toTrigrams [0x0642, 0x0644, 0x0642]) (pair n i bismillah alhamd) = 0"
  unfolding scoreOf_def single_def pair_def candidate.simps norm_bismillah norm_alhamd norm_pair
  by (simp_all add: bismillah_def alhamd_def score_eval)

text \<open>
  C1. The Local Matcher returns absent when the corpus is absent, and then its loop has
  visited no candidate; it returns absent, again without visiting a candidate, when the
  normalized transcript is empty; it returns absent when every scored candidate, hence
  the best one, scores below \<open>0.12\<close>. Conversely every result it returns is built from
  a candidate of the index whose score against the normalized transcript is at least
  \<open>0.12\<close>: chapter name, text and verse locator are the candidate's, the translation is
  the placeholder.
\<close>

theorem identifyByCorpus_threshold:
  "identifyByCorpusRun None t = ([], None) \<and>
   identifyByCorpus None t = None \<and>
   (normalizeArabic t = [] \<longrightarrow>
      identifyByCorpusRun loaded t = ([], None) \<and> identifyByCorpus loaded t = None) \<and>
   ((\<forall>b\<in>set (buildCandidates c). scorable b \<longrightarrow>
        scoreOf (toTrigrams (normalizeArabic t)) b < 12 / 100) \<longrightarrow>
      identifyByCorpus (Some c) t = None) \<and>
   (identifyByCorpus loaded t = Some r \<longrightarrow>
      (\<exists>c b. loaded = Some c \<and> b \<in> set (buildCandidates c) \<and>
         12 / 100 \<le> jaccard (toTrigrams (normalizeArabic t))
                            (toTrigrams (normalizeArabic (c_text b))) \<and>
         surah r = c_surah b \<and> arabic r = c_text b \<and> translation r = [0x2014] \<and>
         ayah r = c_ayah b \<and> ayahStart r = c_ayahStart b \<and> ayahEnd r = c_ayahEnd b \<and>
         ayahs r = None))"
proof -
  have 1: "identifyByCorpusRun None t = ([], None)" by (simp add: identifyByCorpusRun_def)
  then have 2: "identifyByCorpus None t = None" by (simp add: identifyByCorpus_def)
  have 3: "normalizeArabic t = [] \<longrightarrow>
      identifyByCorpusRun loaded t = ([], None) \<and> identifyByCorpus loaded t = None"
    by (simp add: identifyByCorpus_def identifyByCorpusRun_def split: option.splits)
  have 4: "(\<forall>b\<in>set (buildCandidates c). scorable b \<longrightarrow>
        scoreOf (toTrigrams (normalizeArabic t)) b < 12 / 100) \<longrightarrow>
      identifyByCorpus (Some c) t = None"
    using identifyByCorpus_below by blast
  have 5: "identifyByCorpus loaded t = Some r \<longrightarrow>
      (\<exists>c b. loaded = Some c \<and> b \<in> set (buildCandidates c) \<and>
         12 / 100 \<le> jaccard (toTrigrams (normalizeArabic t))
                            (toTrigrams (normalizeArabic (c_text b))) \<and>
         surah r = c_surah b \<and> arabic r = c_text b \<and> translation r = [0x2014] \<and>
         ayah r = c_ayah b \<and> ayahStart r = c_ayahStart b \<and> ayahEnd r = c_ayahEnd b \<and>
         ayahs r = None)"
  proof
    assume "identifyByCorpus loaded t = Some r"
    from identifyByCorpus_Some[OF this] show "\<exists>c b. loaded = Some c \<and> b \<in> set (buildCandidates c) \<and>
         12 / 100 \<le> jaccard (toTrigrams (normalizeArabic t))
                            (toTrigrams (normalizeArabic (c_text b))) \<and>
         surah r = c_surah b \<and> arabic r = c_text b \<and> translation r = [0x2014] \<and>
         ayah r = c_ayah b \<and> ayahStart r = c_ayahStart b \<and> ayahEnd r = c_ayahEnd b \<and>
         ayahs r = None" by blast
  qed
  from 1 2 3 4 5 show ?thesis by blast
qed

theorem identifyByCorpus_threshold_witness:
  "normalizeArabic (ascii ''abc'') = [] \<and>
   identifyByCorpusRun (Some corpusTwoChapters) (ascii ''abc'') = ([], None) \<and>
   list_all (\<lambda>b. scoreOf (toTrigrams (normalizeArabic [0x0642, 0x0644, 0x0642])) b < 12 / 100)
     (buildCandidates corpusTwoChapters) \<and>
   identifyByCorpus (Some corpusTwoChapters) [0x0642, 0x0644, 0x0642] = None \<and>
   identifyByCorpus (Some corpusTwoChapters) bismillah
     = Some \<lparr>surah = fatiha, arabic = bismillah, translation = [0x2014], ayah = Some 1,
             ayahStart = None, ayahEnd = None, ayahs = None\<rparr> \<and>
   (\<exists>b. b \<in> set (buildCandidates corpusTwoChapters) \<and>
      12 / 100 \<le> jaccard (toTrigrams (normalizeArabic bismillah))
                         (toTrigrams (normalizeArabic (c_text b))) \<and>
      c_surah b = fatiha \<and> c_text b = bismillah \<and> c_ayah b = Some 1)"
proof -
  let ?q = "[0x0642, 0x0644, 0x0642]"
  let ?r = "\<lparr>surah = fatiha, arabic = bismillah, translation = [0x2014], ayah = Some 1,
             ayahStart = None, ayahEnd = None, ayahs = None\<rparr>"
  have e: "normalizeArabic (ascii ''abc'') = []" by (simp add: ascii_def norm_eval)
  from identifyByCorpus_threshold [of "ascii ''abc''" "Some corpusTwoChapters"] e
  have 1: "identifyByCorpusRun (Some corpusTwoChapters) (ascii ''abc'') = ([], None)" by blast
  have l: "list_all (\<lambda>b. scoreOf (toTrigrams (normalizeArabic ?q)) b < 12 / 100)
     (buildCandidates corpusTwoChapters)"
    unfolding norm_qalaq buildCandidates_corpusTwoChapters by (simp add: score_qalaq)
  then have "\<forall>b\<in>set (buildCandidates corpusTwoChapters). scorable b \<longrightarrow>
        scoreOf (toTrigrams (normalizeArabic ?q)) b < 12 / 100"
    unfolding list_all_iff by blast
  with identifyByCorpus_threshold [of ?q _ corpusTwoChapters]
  have 2: "identifyByCorpus (Some corpusTwoChapters) ?q = None" by blast
  have 3: "identifyByCorpus (Some corpusTwoChapters) bismillah = Some ?r"
    by (simp add: identifyByCorpus_def identifyByCorpusRun_def norm_bismillah
        scan_corpusTwoChapters Let_def)
       (simp add: bismillah_def fromBest_def single_def truthy_def)
  with identifyByCorpus_threshold [of bismillah "Some corpusTwoChapters" _ ?r]
  have "\<exists>c b. Some corpusTwoChapters = Some c \<and> b \<in> set (buildCandidates c) \<and>
         12 / 100 \<le> jaccard (toTrigrams (normalizeArabic bismillah))
                            (toTrigrams (normalizeArabic (c_text b))) \<and>
         surah ?r = c_surah b \<and> arabic ?r = c_text b \<and> translation ?r = [0x2014] \<and>
         ayah ?r = c_ayah b \<and> ayahStart ?r = c_ayahStart b \<and> ayahEnd ?r = c_ayahEnd b \<and>
         ayahs ?r = None" by blast
  then have 4: "\<exists>b. b \<in> set (buildCandidates corpusTwoChapters) \<and>
      12 / 100 \<le> jaccard (toTrigrams (normalizeArabic bismillah))
                         (toTrigrams (normalizeArabic (c_text b))) \<and>
      c_surah b = fatiha \<and> c_text b = bismillah \<and> c_ayah b = Some 1"
    by auto
  from e 1 l 2 3 4 show ?thesis by blast
qed

section \<open>Properties of the Remote Identifier\<close>

lemma truthyNum_iff: "truthyNum n \<longleftrightarrow> n \<noteq> NaN \<and> n \<noteq> Finite 0"
  by (cases n) (auto simp: truthyNum_def)




lemma ayahsField_entries:
  "ayahsField f parsed = Some l \<Longrightarrow> n \<in> set l \<Longrightarrow> n \<noteq> NaN \<and> n \<noteq> Finite 0"
  by (auto simp: ayahsField_def truthyNum_iff split: option.splits json.splits)



lemma identify_result:
  assumes "parsed \<noteq> JNull"
  shows "\<exists>r. identifySurahFromTranscript f (Some parsed) t = Inr (Some r) \<and>
     (if (case ayahsField f parsed of None \<Rightarrow> False | Some l \<Rightarrow> l \<noteq> [])
      then r_ayahs r = ayahsField f parsed \<and> r_ayahStart r = None \<and> r_ayahEnd r = None \<and>
           r_ayah r = None
      else if truthyNum (numField f parsed (ascii ''ayahStart'') (ascii ''verseStart'')) \<and>
              truthyNum (numField f parsed (ascii ''ayahEnd'') (ascii ''verseEnd''))
      then r_ayahs r = None \<and>
           r_ayahStart r = Some (numField f parsed (ascii ''ayahStart'') (ascii ''verseStart'')) \<and>
           r_ayahEnd r = Some (numField f parsed (ascii ''ayahEnd'') (ascii ''verseEnd'')) \<and>
           r_ayah r = None
      else r_ayahs r = None \<and> r_ayahStart r = None \<and> r_ayahEnd r = None \<and>
           r_ayah r = Some (numField f parsed (ascii ''ayah'') (ascii ''verse'')))"
  using assms by (simp add: identifySurahFromTranscript_def Let_def)


lemmas json_eval = identifySurahFromTranscript_def numField_def ayahsField_def getProp_def
  orElse_def toNumber_def truthyNum_def truthyV_def ascii_def Let_def




section \<open>Properties of the Result Formatter\<close>

lemma comparePositive_NaN [simp]: "\<not> comparePositive NaN b" "\<not> comparePositive a NaN"
  by (cases b; simp) (cases a; simp)

lemma comparePositive_asym: "comparePositive a b \<Longrightarrow> \<not> comparePositive b a"
  by (cases a; cases b) auto

lemma comparePositive_le_trans:
  "\<not> comparePositive a b \<Longrightarrow> \<not> comparePositive b c \<Longrightarrow> b \<noteq> NaN \<Longrightarrow> \<not> comparePositive a c"
  by (cases a; cases b; cases c) auto

lemma set_jsInsert: "set (jsInsert a l) = insert a (set l)"
  by (induction l) auto

lemma length_jsInsert: "length (jsInsert a l) = Suc (length l)"
  by (induction l) auto

lemma count_jsInsert: "count_list (jsInsert a l) x = count_list (a # l) x"
  by (induction l) auto

lemma set_jsSort: "set (jsSort l) = set l"
  unfolding jsSort_def by (induction l) (simp_all add: set_jsInsert)

lemma length_jsSort: "length (jsSort l) = length l"
  unfolding jsSort_def by (induction l) (simp_all add: length_jsInsert)

lemma count_jsSort: "count_list (jsSort l) x = count_list l x"
  unfolding jsSort_def by (induction l) (simp_all add: count_jsInsert)

lemma sorted_jsInsert:
  assumes "a \<noteq> NaN" and "\<forall>b\<in>set l. b \<noteq> NaN"
    and "sorted_wrt (\<lambda>x y. \<not> comparePositive x y) l"
  shows "sorted_wrt (\<lambda>x y. \<not> comparePositive x y) (jsInsert a l)"
  using assms
proof (induction l)
  case Nil then show ?case by simp
next
  case (Cons b bs)
  show ?case
  proof (cases "comparePositive a b")
    case True
    then have "\<not> comparePositive b a" by (rule comparePositive_asym)
    with True Cons show ?thesis by (auto simp: set_jsInsert)
  next
    case False
    have "\<forall>x\<in>set bs. \<not> comparePositive a x"
    proof
      fix x assume "x \<in> set bs"
      with Cons.prems(3) have "\<not> comparePositive b x" by simp
      moreover have "b \<noteq> NaN" using Cons.prems(2) by simp
      ultimately show "\<not> comparePositive a x" using False comparePositive_le_trans by blast
    qed
    with False Cons.prems(3) show ?thesis by simp
  qed
qed

lemma sorted_jsSort:
  "\<forall>b\<in>set l. b \<noteq> NaN \<Longrightarrow> sorted_wrt (\<lambda>x y. \<not> comparePositive x y) (jsSort l)"
proof (induction l)
  case Nil then show ?case by (simp add: jsSort_def)
next
  case (Cons a l)
  then have "sorted_wrt (\<lambda>x y. \<not> comparePositive x y) (jsSort l)" by simp
  moreover have "\<forall>b\<in>set (jsSort l). b \<noteq> NaN" using Cons.prems by (simp add: set_jsSort)
  moreover have "a \<noteq> NaN" using Cons.prems by simp
  ultimately have "sorted_wrt (\<lambda>x y. \<not> comparePositive x y) (jsInsert a (jsSort l))"
    by (intro sorted_jsInsert) auto
  then show ?case by (simp add: jsSort_def)
qed

lemma formatAyahLabel_truthy_list:
  assumes "resAyahs res = Some l" and "l \<noteq> []" and "\<forall>n\<in>set l. n \<noteq> NaN \<and> n \<noteq> Finite 0"
  shows "formatAyahLabel digits res =
     (if length l = 1 then singleLabel digits (hd (jsSort l))
      else rangeLabel digits (hd (jsSort l)) (last (jsSort l)))"
proof -
  from assms(2) obtain x xs where l: "l = x # xs" by (cases l) auto
  have ne: "jsSort l \<noteq> []" using assms(2) by (metis length_0_conv length_jsSort)
  then have "hd (jsSort l) \<in> set l" "last (jsSort l) \<in> set l"
    using set_jsSort[of l] by (metis hd_in_set, metis last_in_set)
  with assms(3) have t: "truthyNum (hd (jsSort l))" "truthyNum (last (jsSort l))"
    by (simp_all add: truthyNum_iff)
  have "length l = 1 \<or> length l > 1" using assms(2) by (cases l) auto
  with t assms(1) show ?thesis
    unfolding formatAyahLabel_def l[symmetric] by (auto simp: l Let_def length_jsSort)
qed

lemma remote_list:
  assumes "identifySurahFromTranscript f p t = Inr (Some r)" and "r_ayahs r = Some l"
  shows "l \<noteq> [] \<and> (\<forall>n\<in>set l. n \<noteq> NaN \<and> n \<noteq> Finite 0)"
proof -
  from assms(1) obtain parsed where p: "p = Some parsed" and nn: "parsed \<noteq> JNull"
    by (cases p) (auto simp: identifySurahFromTranscript_def split: if_splits)
  from identify_result[OF nn, of f t] assms(1) p
  have c: "if (case ayahsField f parsed of None \<Rightarrow> False | Some l \<Rightarrow> l \<noteq> [])
      then r_ayahs r = ayahsField f parsed \<and> r_ayahStart r = None \<and> r_ayahEnd r = None \<and>
           r_ayah r = None
      else if truthyNum (numField f parsed (ascii ''ayahStart'') (ascii ''verseStart'')) \<and>
              truthyNum (numField f parsed (ascii ''ayahEnd'') (ascii ''verseEnd''))
      then r_ayahs r = None \<and>
           r_ayahStart r = Some (numField f parsed (ascii ''ayahStart'') (ascii ''verseStart'')) \<and>
           r_ayahEnd r = Some (numField f parsed (ascii ''ayahEnd'') (ascii ''verseEnd'')) \<and>
           r_ayah r = None
      else r_ayahs r = None \<and> r_ayahStart r = None \<and> r_ayahEnd r = None \<and>
           r_ayah r = Some (numField f parsed (ascii ''ayah'') (ascii ''verse''))"
    by auto
  with assms(2) have a: "ayahsField f parsed = Some l" and ne: "l \<noteq> []"
    by (auto split: if_splits option.splits)
  from ayahsField_entries[OF a] ne show ?thesis by blast
qed

lemma local_no_list: "fromBest best = Some m \<Longrightarrow> ayahs m = None"
  by (auto simp: fromBest_def Let_def split: option.splits if_splits)

lemma identifyByCorpus_no_list: "identifyByCorpus loaded t = Some m \<Longrightarrow> resAyahs (Local m) = None"
  by (auto simp: identifyByCorpus_def identifyByCorpusRun_def resAyahs_def Let_def
      dest: local_no_list split: option.splits if_splits)


lemma showInt_digit: "0 \<le> i \<Longrightarrow> i < 10 \<Longrightarrow> showInt i = [48 + nat i]"
  by (simp add: showInt_def showNat_digit)

lemma numToString_digit:
  "numToString digits (Finite 3) = [51]" "numToString digits (Finite 4) = [52]"
  "numToString digits (Finite 7) = [55]"
  by (simp_all add: numToString_def showInt_digit)

lemma identifyByCorpus_bismillah:
  "identifyByCorpus (Some corpusTwoChapters) bismillah
     = Some \<lparr>surah = fatiha, arabic = bismillah, translation = [0x2014], ayah = Some 1,
             ayahStart = None, ayahEnd = None, ayahs = None\<rparr>"
  by (simp add: identifyByCorpus_def identifyByCorpusRun_def norm_bismillah
      scan_corpusTwoChapters Let_def)
     (simp add: bismillah_def fromBest_def single_def truthy_def)

text \<open>
  C2. Every result that reaches \<open>formatAyahLabel\<close> comes from the Local Matcher, which
  sets no verse-numbers list, or from the Remote Identifier, whose list, when the result
  carries one, is not empty and holds neither \<open>0\<close> nor \<open>NaN\<close>. For every such result
  with a list, and more generally for every result whose non-empty list holds neither
  \<open>0\<close> nor \<open>NaN\<close>, \<open>formatAyahLabel\<close> sorts the list ascending (no element is greater
  than a later one, and every number occurs as often as before) and renders the
  single-verse label of the sorted first element when the list has length 1, and
  otherwise the range label of the sorted first and last elements.
\<close>

theorem formatAyahLabel_list_label:
  "(identifySurahFromTranscript f p t = Inr (Some r) \<and> r_ayahs r = Some l \<longrightarrow>
      resAyahs (Remote r) = Some l \<and> l \<noteq> [] \<and>
      sorted_wrt (\<lambda>a b. \<not> comparePositive a b) (jsSort l) \<and>
      (\<forall>x. count_list (jsSort l) x = count_list l x) \<and>
      (length l = 1 \<longrightarrow>
         formatAyahLabel digits (Remote r) = singleLabel digits (hd (jsSort l))) \<and>
      (length l \<noteq> 1 \<longrightarrow>
         formatAyahLabel digits (Remote r)
           = rangeLabel digits (hd (jsSort l)) (last (jsSort l)))) \<and>
   (identifyByCorpus loaded t' = Some m \<longrightarrow> resAyahs (Local m) = None) \<and>
   (resAyahs res = Some l' \<and> l' \<noteq> [] \<and> (\<forall>n\<in>set l'. n \<noteq> NaN \<and> n \<noteq> Finite 0) \<longrightarrow>
      sorted_wrt (\<lambda>a b. \<not> comparePositive a b) (jsSort l') \<and>
      (\<forall>x. count_list (jsSort l') x = count_list l' x) \<and>
      (length l' = 1 \<longrightarrow> formatAyahLabel digits res = singleLabel digits (hd (jsSort l'))) \<and>
      (length l' \<noteq> 1 \<longrightarrow>
         formatAyahLabel digits res = rangeLabel digits (hd (jsSort l')) (last (jsSort l'))))"
proof -
  have g: "sorted_wrt (\<lambda>a b. \<not> comparePositive a b) (jsSort k) \<and>
      (\<forall>x. count_list (jsSort k) x = count_list k x) \<and>
      (length k = 1 \<longrightarrow> formatAyahLabel digits q = singleLabel digits (hd (jsSort k))) \<and>
      (length k \<noteq> 1 \<longrightarrow>
         formatAyahLabel digits q = rangeLabel digits (hd (jsSort k)) (last (jsSort k)))"
    if "resAyahs q = Some k" "k \<noteq> []" "\<forall>n\<in>set k. n \<noteq> NaN \<and> n \<noteq> Finite 0" for q k
  proof -
    from that(3) have "\<forall>b\<in>set k. b \<noteq> NaN" by blast
    then have 1: "sorted_wrt (\<lambda>a b. \<not> comparePositive a b) (jsSort k)" by (rule sorted_jsSort)
    have 2: "\<forall>x. count_list (jsSort k) x = count_list k x" by (simp add: count_jsSort)
    from formatAyahLabel_truthy_list[OF that, of digits] 1 2 show ?thesis by simp
  qed
  have a: "identifySurahFromTranscript f p t = Inr (Some r) \<and> r_ayahs r = Some l \<longrightarrow>
      resAyahs (Remote r) = Some l \<and> l \<noteq> [] \<and>
      sorted_wrt (\<lambda>a b. \<not> comparePositive a b) (jsSort l) \<and>
      (\<forall>x. count_list (jsSort l) x = count_list l x) \<and>
      (length l = 1 \<longrightarrow>
         formatAyahLabel digits (Remote r) = singleLabel digits (hd (jsSort l))) \<and>
      (length l \<noteq> 1 \<longrightarrow>
         formatAyahLabel digits (Remote r)
           = rangeLabel digits (hd (jsSort l)) (last (jsSort l)))"
  proof
    assume h: "identifySurahFromTranscript f p t = Inr (Some r) \<and> r_ayahs r = Some l"
    then have v: "resAyahs (Remote r) = Some l" by (simp add: resAyahs_def)
    from h remote_list have w: "l \<noteq> []" "\<forall>n\<in>set l. n \<noteq> NaN \<and> n \<noteq> Finite 0" by blast+
    from g[OF v w] v w(1) show "resAyahs (Remote r) = Some l \<and> l \<noteq> [] \<and>
      sorted_wrt (\<lambda>a b. \<not> comparePositive a b) (jsSort l) \<and>
      (\<forall>x. count_list (jsSort l) x = count_list l x) \<and>
      (length l = 1 \<longrightarrow>
         formatAyahLabel digits (Remote r) = singleLabel digits (hd (jsSort l))) \<and>
      (length l \<noteq> 1 \<longrightarrow>
         formatAyahLabel digits (Remote r)
           = rangeLabel digits (hd (jsSort l)) (last (jsSort l)))" by blast
  qed
  have b: "identifyByCorpus loaded t' = Some m \<longrightarrow> resAyahs (Local m) = None"
    using identifyByCorpus_no_list by blast
  have c: "resAyahs res = Some l' \<and> l' \<noteq> [] \<and> (\<forall>n\<in>set l'. n \<noteq> NaN \<and> n \<noteq> Finite 0) \<longrightarrow>
      sorted_wrt (\<lambda>a b. \<not> comparePositive a b) (jsSort l') \<and>
      (\<forall>x. count_list (jsSort l') x = count_list l' x) \<and>
      (length l' = 1 \<longrightarrow> formatAyahLabel digits res = singleLabel digits (hd (jsSort l'))) \<and>
      (length l' \<noteq> 1 \<longrightarrow>
         formatAyahLabel digits res = rangeLabel digits (hd (jsSort l')) (last (jsSort l')))"
    using g by blast
  show ?thesis by (intro conjI a b c)
qed

theorem formatAyahLabel_list_label_witness:
  "identifySurahFromTranscript (\<lambda>v. NaN) (Some parsedThree) bismillah
     = Inr (Some \<lparr>r_surah = JStr [0x2014], r_arabic = JStr bismillah,
                   r_translation = JStr [0x2014], r_ayah = None, r_ayahStart = None,
                   r_ayahEnd = None, r_ayahs = Some [Finite 7, Finite 3, Finite 5]\<rparr>) \<and>
   jsSort [Finite 7, Finite 3, Finite 5] = [Finite 3, Finite 5, Finite 7] \<and>
   formatAyahLabel noDigits
       (Remote \<lparr>r_surah = JStr [0x2014], r_arabic = JStr bismillah,
                 r_translation = JStr [0x2014], r_ayah = None, r_ayahStart = None,
                 r_ayahEnd = None, r_ayahs = Some [Finite 7, Finite 3, Finite 5]\<rparr>)
     = [0x0622, 0x064A, 0x0627, 0x062A, 32, 51, 0x2013, 55] \<and>
   identifySurahFromTranscript (\<lambda>v. NaN) (Some parsedOne) bismillah
     = Inr (Some \<lparr>r_surah = JStr [0x2014], r_arabic = JStr bismillah,
                   r_translation = JStr [0x2014], r_ayah = None, r_ayahStart = None,
                   r_ayahEnd = None, r_ayahs = Some [Finite 4]\<rparr>) \<and>
   formatAyahLabel noDigits
       (Remote \<lparr>r_surah = JStr [0x2014], r_arabic = JStr bismillah,
                 r_translation = JStr [0x2014], r_ayah = None, r_ayahStart = None,
                 r_ayahEnd = None, r_ayahs = Some [Finite 4]\<rparr>)
     = [0x0622, 0x064A, 0x0629, 32, 52] \<and>
   identifyByCorpus (Some corpusTwoChapters) bismillah
     = Some \<lparr>surah = fatiha, arabic = bismillah, translation = [0x2014], ayah = Some 1,
             ayahStart = None, ayahEnd = None, ayahs = None\<rparr> \<and>
   resAyahs (Local \<lparr>surah = fatiha, arabic = bismillah, translation = [0x2014],
                     ayah = Some 1, ayahStart = None, ayahEnd = None, ayahs = None\<rparr>) = None \<and>
   list_all (\<lambda>n. n \<noteq> NaN \<and> n \<noteq> Finite 0) [Finite 7, Finite 3, Finite 5] \<and>
   sorted_wrt (\<lambda>a b. \<not> comparePositive a b) [Finite 3, Finite 5, Finite 7]"
proof -
  let ?r3 = "\<lparr>r_surah = JStr [0x2014], r_arabic = JStr bismillah,
                   r_translation = JStr [0x2014], r_ayah = None, r_ayahStart = None,
                   r_ayahEnd = None, r_ayahs = Some [Finite 7, Finite 3, Finite 5]\<rparr>"
  let ?r1 = "\<lparr>r_surah = JStr [0x2014], r_arabic = JStr bismillah,
                   r_translation = JStr [0x2014], r_ayah = None, r_ayahStart = None,
                   r_ayahEnd = None, r_ayahs = Some [Finite 4]\<rparr>"
  have i3: "identifySurahFromTranscript (\<lambda>v. NaN) (Some parsedThree) bismillah = Inr (Some ?r3)"
    by (simp add: parsedThree_def json_eval)
  have i1: "identifySurahFromTranscript (\<lambda>v. NaN) (Some parsedOne) bismillah = Inr (Some ?r1)"
    by (simp add: parsedOne_def json_eval)
  have s3: "jsSort [Finite 7, Finite 3, Finite 5] = [Finite 3, Finite 5, Finite 7]"
    by (simp add: jsSort_def)
  have s1: "jsSort [Finite 4] = [Finite 4]" by (simp add: jsSort_def)
  have a3: "r_ayahs ?r3 = Some [Finite 7, Finite 3, Finite 5]" by simp
  have a1: "r_ayahs ?r1 = Some [Finite 4]" by simp
  from formatAyahLabel_list_label
    [of "\<lambda>v. NaN" "Some parsedThree" bismillah ?r3 "[Finite 7, Finite 3, Finite 5]" noDigits]
    i3 a3
  have "formatAyahLabel noDigits (Remote ?r3)
      = rangeLabel noDigits (hd (jsSort [Finite 7, Finite 3, Finite 5]))
          (last (jsSort [Finite 7, Finite 3, Finite 5]))" by simp
  then have f3: "formatAyahLabel noDigits (Remote ?r3)
      = [0x0622, 0x064A, 0x0627, 0x062A, 32, 51, 0x2013, 55]"
    unfolding s3 by (simp add: rangeLabel_def numToString_digit)
  from formatAyahLabel_list_label
    [of "\<lambda>v. NaN" "Some parsedOne" bismillah ?r1 "[Finite 4]" noDigits] i1 a1
  have "formatAyahLabel noDigits (Remote ?r1) = singleLabel noDigits (hd (jsSort [Finite 4]))"
    by simp
  then have f1: "formatAyahLabel noDigits (Remote ?r1) = [0x0622, 0x064A, 0x0629, 32, 52]"
    unfolding s1 by (simp add: singleLabel_def numToString_digit)
  let ?m = "\<lparr>surah = fatiha, arabic = bismillah, translation = [0x2014],
                     ayah = Some 1, ayahStart = None, ayahEnd = None, ayahs = None\<rparr>"
  note m = identifyByCorpus_bismillah
  from formatAyahLabel_list_label [of _ _ _ _ _ _ "Some corpusTwoChapters" bismillah ?m] m
  have n: "resAyahs (Local ?m) = None" by blast
  have v: "resAyahs (Remote ?r3) = Some [Finite 7, Finite 3, Finite 5]"
    by (simp add: resAyahs_def)
  have la: "list_all (\<lambda>n. n \<noteq> NaN \<and> n \<noteq> Finite 0) [Finite 7, Finite 3, Finite 5]" by simp
  then have lb: "\<forall>n\<in>set [Finite 7, Finite 3, Finite 5]. n \<noteq> NaN \<and> n \<noteq> Finite 0"
    unfolding list_all_iff .
  have ne: "[Finite 7, Finite 3, Finite 5] \<noteq> []" by simp
  from formatAyahLabel_list_label
    [of _ _ _ _ _ noDigits _ _ _ "Remote ?r3" "[Finite 7, Finite 3, Finite 5]"] v ne lb
  have "sorted_wrt (\<lambda>a b. \<not> comparePositive a b) (jsSort [Finite 7, Finite 3, Finite 5])"
    by blast
  then have so: "sorted_wrt (\<lambda>a b. \<not> comparePositive a b) [Finite 3, Finite 5, Finite 7]"
    unfolding s3 .
  from i3 s3 f3 i1 f1 m n la so show ?thesis by blast
qed

section \<open>Properties of the Verse-Name Resolver\<close>

lemma mkMap_snoc: "mkMap (ps @ [(k, v)]) = AList.update k v (mkMap ps)"
  by (simp add: mkMap_def)

lemma update_fresh: "k \<notin> fst ` set m \<Longrightarrow> AList.update k v m = m @ [(k, v)]"
  by (induction m) auto

lemma mkMap_distinct: "distinct (map fst ps) \<Longrightarrow> mkMap ps = ps"
proof (induction ps rule: rev_induct)
  case Nil then show ?case by (simp add: mkMap_def)
next
  case (snoc p ps)
  obtain k v where p: "p = (k, v)" by (cases p)
  from snoc.prems have d: "distinct (map fst ps)" and f: "k \<notin> fst ` set ps" by (auto simp: p)
  from snoc.IH[OF d] f show ?case unfolding p mkMap_snoc by (simp add: update_fresh)
qed

lemma normalized_pairs:
  "map (\<lambda>(i, n). (normalizeSurahNameForMatch n, i + 1)) (enumerate 0 SURAH_ARABIC_LIST)
     = normalizedTable"
  by (simp add: SURAH_ARABIC_LIST_def normalizedTable_def normalizeSurahNameForMatch_def
      stripSurahPrefix_def norm_eval)

lemma normalizedTable_distinct: "distinct (map fst normalizedTable)"
  by (simp add: normalizedTable_def)

lemma ARABIC_NORM_TO_NUM_eq: "ARABIC_NORM_TO_NUM = normalizedTable"
  unfolding ARABIC_NORM_TO_NUM_def normalized_pairs
  by (rule mkMap_distinct) (rule normalizedTable_distinct)

lemma englishPairs_distinct: "distinct (map fst englishPairs)"
  by (simp add: englishPairs_def ascii_def)

lemma englishToNum_eq: "englishToNum = englishPairs"
  unfolding englishToNum_def by (rule mkMap_distinct) (rule englishPairs_distinct)

lemma normalizedTable_nonzero: "list_all (\<lambda>p. snd p \<noteq> 0 \<and> fst p \<noteq> []) normalizedTable"
  by (simp add: normalizedTable_def)

lemma englishPairs_nonzero: "list_all (\<lambda>p. snd p \<noteq> 0) englishPairs"
  by (simp add: englishPairs_def)


lemma take_length_prefix: "take (length k) s = k \<longleftrightarrow> (\<exists>v. s = k @ v)"
proof
  assume "take (length k) s = k"
  then have "s = k @ drop (length k) s" by (metis append_take_drop_id)
  then show "\<exists>v. s = k @ v" ..
next
  assume "\<exists>v. s = k @ v"
  then show "take (length k) s = k" by auto
qed

lemma includes_str_iff: "includes_str s k \<longleftrightarrow> (\<exists>u v. s = u @ k @ v)"
proof (induction s)
  case Nil
  show ?case by auto
next
  case (Cons c cs)
  have "(\<exists>u v. c # cs = u @ k @ v) \<longleftrightarrow> (\<exists>v. c # cs = k @ v) \<or> (\<exists>u v. cs = u @ k @ v)"
  proof
    assume "\<exists>u v. c # cs = u @ k @ v"
    then obtain u v where e: "c # cs = u @ k @ v" by blast
    show "(\<exists>v. c # cs = k @ v) \<or> (\<exists>u v. cs = u @ k @ v)"
    proof (cases u)
      case Nil with e show ?thesis by auto
    next
      case (Cons a u') with e show ?thesis by auto
    qed
  next
    assume "(\<exists>v. c # cs = k @ v) \<or> (\<exists>u v. cs = u @ k @ v)"
    then show "\<exists>u v. c # cs = u @ k @ v"
    proof
      assume "\<exists>v. c # cs = k @ v"
      then obtain v where "c # cs = [] @ k @ v" by auto
      then show ?thesis by blast
    next
      assume "\<exists>u v. cs = u @ k @ v"
      then obtain u v where "c # cs = (c # u) @ k @ v" by auto
      then show ?thesis by blast
    qed
  qed
  with Cons show ?case by (simp only: includes_str.simps take_length_prefix)
qed

lemma firstMatch_None: "firstMatch P m = None \<longleftrightarrow> (\<forall>p\<in>set m. \<not> P (fst p))"
proof (induction m)
  case Nil show ?case by simp
next
  case (Cons e m)
  obtain k0 v0 where e: "e = (k0, v0)" by (cases e)
  from Cons show ?case by (cases "P k0") (simp_all add: e)
qed

lemma firstMatch_Some:
  "firstMatch P m = Some n \<longleftrightarrow>
     (\<exists>pre k post. m = pre @ (k, n) # post \<and> P k \<and>
        (\<forall>p\<in>set pre. \<not> P (fst p)))"
proof (induction m)
  case Nil show ?case by simp
next
  case (Cons e m)
  obtain k0 v0 where e: "e = (k0, v0)" by (cases e)
  show ?case
  proof (cases "P k0")
    case True
    have "(\<exists>pre k post. (k0, v0) # m = pre @ (k, n) # post \<and> P k \<and>
        (\<forall>p\<in>set pre. \<not> P (fst p))) \<longleftrightarrow> v0 = n"
    proof
      assume "\<exists>pre k post. (k0, v0) # m = pre @ (k, n) # post \<and> P k \<and>
        (\<forall>p\<in>set pre. \<not> P (fst p))"
      then obtain pre k post where d: "(k0, v0) # m = pre @ (k, n) # post"
        "\<forall>p\<in>set pre. \<not> P (fst p)" by blast
      show "v0 = n"
      proof (cases pre)
        case Nil with d show ?thesis by simp
      next
        case (Cons a as) with d True show ?thesis by auto
      qed
    next
      assume "v0 = n"
      then have "(k0, v0) # m = [] @ (k0, n) # m" by simp
      with True show "\<exists>pre k post. (k0, v0) # m = pre @ (k, n) # post \<and> P k \<and>
        (\<forall>p\<in>set pre. \<not> P (fst p))" by (metis empty_iff list.set(1))
    qed
    with True show ?thesis by (simp add: e)
  next
    case False
    have "(\<exists>pre k post. (k0, v0) # m = pre @ (k, n) # post \<and> P k \<and>
        (\<forall>p\<in>set pre. \<not> P (fst p))) \<longleftrightarrow>
      (\<exists>pre k post. m = pre @ (k, n) # post \<and> P k \<and>
        (\<forall>p\<in>set pre. \<not> P (fst p)))"
    proof
      assume "\<exists>pre k post. (k0, v0) # m = pre @ (k, n) # post \<and> P k \<and>
        (\<forall>p\<in>set pre. \<not> P (fst p))"
      then obtain pre k post where d: "(k0, v0) # m = pre @ (k, n) # post" "P k"
        "\<forall>p\<in>set pre. \<not> P (fst p)" by blast
      show "\<exists>pre k post. m = pre @ (k, n) # post \<and> P k \<and>
        (\<forall>p\<in>set pre. \<not> P (fst p))"
      proof (cases pre)
        case Nil with d False show ?thesis by auto
      next
        case (Cons a as)
        with d have "m = as @ (k, n) # post" "\<forall>p\<in>set as. \<not> P (fst p)" by auto
        with d(2) show ?thesis by blast
      qed
    next
      assume "\<exists>pre k post. m = pre @ (k, n) # post \<and> P k \<and>
        (\<forall>p\<in>set pre. \<not> P (fst p))"
      then obtain pre k post where d: "m = pre @ (k, n) # post" "P k"
        "\<forall>p\<in>set pre. \<not> P (fst p)" by blast
      have "(k0, v0) # m = ((k0, v0) # pre) @ (k, n) # post" using d(1) by simp
      moreover have "\<forall>p\<in>set ((k0, v0) # pre). \<not> P (fst p)" using d(3) False by simp
      ultimately show "\<exists>pre k post. (k0, v0) # m = pre @ (k, n) # post \<and> P k \<and>
        (\<forall>p\<in>set pre. \<not> P (fst p))" using d(2) by blast
    qed
    with False Cons.IH show ?thesis by (simp add: e)
  qed
qed

lemma scanArabic_firstMatch: "scanArabic nrm m = firstMatch (includes_str nrm) m"
  by (induction m) auto

lemma scanEnglish_firstMatch:
  "scanEnglish lc en m = firstMatch (\<lambda>k. includes_str (toLowerCase lc en) (toLowerCase lc k)) m"
  by (induction m) auto

lemma scanArabic_None: "scanArabic nrm m = None \<longleftrightarrow> (\<forall>p\<in>set m. \<not> includes_str nrm (fst p))"
  unfolding scanArabic_firstMatch by (rule firstMatch_None)

lemma scanArabic_Some:
  "scanArabic nrm m = Some n \<longleftrightarrow>
     (\<exists>pre k post. m = pre @ (k, n) # post \<and> includes_str nrm k \<and>
        (\<forall>p\<in>set pre. \<not> includes_str nrm (fst p)))"
  unfolding scanArabic_firstMatch by (rule firstMatch_Some)

lemma scanEnglish_Some:
  "scanEnglish lc en m = Some n \<longleftrightarrow>
     (\<exists>pre k post. m = pre @ (k, n) # post \<and> includes_str (toLowerCase lc en) (toLowerCase lc k) \<and>
        (\<forall>p\<in>set pre. \<not> includes_str (toLowerCase lc en) (toLowerCase lc (fst p))))"
  unfolding scanEnglish_firstMatch by (rule firstMatch_Some)


lemma norm_masad: "normalizeSurahNameForMatch (trim (ascii ''al-masad'')) = []"
  by (simp add: ascii_def normalizeSurahNameForMatch_def stripSurahPrefix_def norm_eval)

lemma trim_masad: "trim (ascii ''al-masad'') = ascii ''al-masad''"
  by (simp add: ascii_def trim_def isSpace_def)

lemma arabic_empty: "getTruthy ARABIC_NORM_TO_NUM [] = None \<and> scanArabic [] ARABIC_NORM_TO_NUM = None"
proof -
  have k: "\<forall>p\<in>set normalizedTable. fst p \<noteq> []"
    using normalizedTable_nonzero unfolding list_all_iff by blast
  then have "[] \<notin> fst ` set normalizedTable" by force
  then have "map_of normalizedTable [] = None" by (simp add: map_of_eq_None_iff)
  moreover have "\<forall>p\<in>set normalizedTable. \<not> includes_str [] (fst p)" using k by simp
  ultimately show ?thesis by (simp add: ARABIC_NORM_TO_NUM_eq getTruthy_def scanArabic_None)
qed

lemma english_masad_exact: "getTruthy englishToNum (ascii ''al-masad'') = None"
  by (simp add: englishToNum_eq englishPairs_def getTruthy_def ascii_def)

lemma english_masad_scan: "scanEnglish lc (ascii ''al-masad'') englishToNum = Some 38"
  by (simp add: englishToNum_eq englishPairs_def ascii_def toLowerCase_def)

lemma english_masad_ignore: "exactIgnoreCase lc (ascii ''al-masad'') englishToNum = Some 111"
  by (simp add: englishToNum_eq englishPairs_def ascii_def toLowerCase_def)


lemma getTruthy_map_of: "list_all (\<lambda>p. snd p \<noteq> 0) m \<Longrightarrow> getTruthy m k = map_of m k"
proof -
  assume a: "list_all (\<lambda>p. snd p \<noteq> 0) m"
  show ?thesis
  proof (cases "map_of m k")
    case None then show ?thesis by (simp add: getTruthy_def)
  next
    case (Some n)
    then have "(k, n) \<in> set m" by (rule map_of_SomeD)
    with a have "n \<noteq> 0" unfolding list_all_iff by force
    with Some show ?thesis by (simp add: getTruthy_def)
  qed
qed

lemma scanArabic_nonzero:
  "list_all (\<lambda>p. snd p \<noteq> 0) m \<Longrightarrow> scanArabic nrm m = Some n \<Longrightarrow> n \<noteq> 0"
  unfolding scanArabic_Some list_all_iff by force

lemma arabic_values: "list_all (\<lambda>p. snd p \<noteq> 0) ARABIC_NORM_TO_NUM"
  using normalizedTable_nonzero unfolding ARABIC_NORM_TO_NUM_eq list_all_iff by blast

lemma english_values: "list_all (\<lambda>p. snd p \<noteq> 0) englishToNum"
  using englishPairs_nonzero unfolding englishToNum_eq .

lemma mapSurahNameToNumber_eq:
  "mapSurahNameToNumber lc s =
     (if s = [] then 0
      else case map_of ARABIC_NORM_TO_NUM (normalizeSurahNameForMatch (trim s)) of
             Some n \<Rightarrow> n
           | None \<Rightarrow>
               (case scanArabic (normalizeSurahNameForMatch (trim s)) ARABIC_NORM_TO_NUM of
                  Some n \<Rightarrow> n
                | None \<Rightarrow>
                    (case map_of englishToNum (trim s) of
                       Some v \<Rightarrow> v
                     | None \<Rightarrow>
                         (case scanEnglish lc (trim s) englishToNum of Some v \<Rightarrow> v | None \<Rightarrow> 0))))"
proof (cases "s = []")
  case True then show ?thesis by (simp add: mapSurahNameToNumber_def resolveWith_def)
next
  case False
  let ?n = "normalizeSurahNameForMatch (trim s)"
  note g = getTruthy_map_of[OF arabic_values] getTruthy_map_of[OF english_values]
  show ?thesis
  proof (cases "map_of ARABIC_NORM_TO_NUM ?n")
    case (Some n)
    then have "(?n, n) \<in> set ARABIC_NORM_TO_NUM" by (rule map_of_SomeD)
    with arabic_values have "n \<noteq> 0" unfolding list_all_iff by force
    with Some False show ?thesis by (simp add: mapSurahNameToNumber_def resolveWith_def g)
  next
    case None
    show ?thesis
    proof (cases "scanArabic ?n ARABIC_NORM_TO_NUM")
      case (Some n)
      with scanArabic_nonzero[OF arabic_values] have "n \<noteq> 0" by blast
      with Some None False show ?thesis by (simp add: mapSurahNameToNumber_def resolveWith_def g)
    next
      case N2: None
      with None False show ?thesis
        by (simp add: mapSurahNameToNumber_def resolveWith_def g Let_def)
    qed
  qed
qed

lemma map_of_nth_distinct:
  "distinct (map fst m) \<Longrightarrow> i < length m \<Longrightarrow> map_of m (fst (m ! i)) = Some (snd (m ! i))"
  by (metis map_of_eq_Some_iff nth_mem prod.collapse)

lemma names_normalized:
  "map (\<lambda>n. normalizeSurahNameForMatch (trim n)) SURAH_ARABIC_LIST = map fst normalizedTable"
  by (simp add: SURAH_ARABIC_LIST_def normalizedTable_def normalizeSurahNameForMatch_def
      stripSurahPrefix_def norm_eval)

lemma prefixed_names_normalized:
  "map (\<lambda>n. normalizeSurahNameForMatch (trim ([0x0633, 0x0648, 0x0631, 0x0629, 32] @ n)))
       SURAH_ARABIC_LIST = map fst normalizedTable"
  by (simp add: SURAH_ARABIC_LIST_def normalizedTable_def normalizeSurahNameForMatch_def
      stripSurahPrefix_def norm_eval)

lemma length_names: "length SURAH_ARABIC_LIST = 114" "length normalizedTable = 114"
  by (simp_all add: SURAH_ARABIC_LIST_def normalizedTable_def)

lemma table_ordinals: "i < 114 \<Longrightarrow> snd (normalizedTable ! i) = i + 1"
proof -
  assume i: "i < 114"
  have "normalizedTable ! i =
      map (\<lambda>(i, n). (normalizeSurahNameForMatch n, i + 1)) (enumerate 0 SURAH_ARABIC_LIST) ! i"
    by (simp only: normalized_pairs)
  also have "\<dots> = (normalizeSurahNameForMatch (SURAH_ARABIC_LIST ! i), i + 1)"
    using i by (simp add: length_names nth_enumerate_eq)
  finally show ?thesis by simp
qed

lemma names_nonempty: "list_all (\<lambda>n. n \<noteq> []) SURAH_ARABIC_LIST"
  by (simp add: SURAH_ARABIC_LIST_def)

lemma resolve_by_key:
  assumes "i < 114" and "s \<noteq> []"
    and "normalizeSurahNameForMatch (trim s) = fst (normalizedTable ! i)"
  shows "mapSurahNameToNumber lc s = i + 1"
proof -
  have "map_of normalizedTable (fst (normalizedTable ! i)) = Some (snd (normalizedTable ! i))"
    using assms(1) by (intro map_of_nth_distinct normalizedTable_distinct) (simp add: length_names)
  then have "map_of ARABIC_NORM_TO_NUM (normalizeSurahNameForMatch (trim s)) = Some (i + 1)"
    unfolding assms(3) ARABIC_NORM_TO_NUM_eq table_ordinals[OF assms(1)] by simp
  with assms(2) show ?thesis by (simp add: mapSurahNameToNumber_eq)
qed

lemma resolve_names:
  assumes "i < 114"
  shows "mapSurahNameToNumber lc (SURAH_ARABIC_LIST ! i) = i + 1"
    and "mapSurahNameToNumber lc ([0x0633, 0x0648, 0x0631, 0x0629, 32] @ SURAH_ARABIC_LIST ! i) = i + 1"
proof -
  have ne: "SURAH_ARABIC_LIST ! i \<noteq> []"
    using names_nonempty assms unfolding list_all_iff by (simp add: length_names)
  have "map (\<lambda>n. normalizeSurahNameForMatch (trim n)) SURAH_ARABIC_LIST ! i
      = map fst normalizedTable ! i" by (simp only: names_normalized)
  then have 1: "normalizeSurahNameForMatch (trim (SURAH_ARABIC_LIST ! i)) = fst (normalizedTable ! i)"
    using assms by (simp add: length_names)
  from resolve_by_key[OF assms ne 1] show "mapSurahNameToNumber lc (SURAH_ARABIC_LIST ! i) = i + 1" .
  have "map (\<lambda>n. normalizeSurahNameForMatch (trim ([0x0633, 0x0648, 0x0631, 0x0629, 32] @ n)))
       SURAH_ARABIC_LIST ! i = map fst normalizedTable ! i" by (simp only: prefixed_names_normalized)
  then have 2: "normalizeSurahNameForMatch (trim ([0x0633, 0x0648, 0x0631, 0x0629, 32] @ SURAH_ARABIC_LIST ! i))
      = fst (normalizedTable ! i)"
    using assms by (simp add: length_names)
  have ne2: "[0x0633, 0x0648, 0x0631, 0x0629, 32] @ SURAH_ARABIC_LIST ! i \<noteq> []" by simp
  from resolve_by_key[OF assms ne2 2]
  show "mapSurahNameToNumber lc ([0x0633, 0x0648, 0x0631, 0x0629, 32] @ SURAH_ARABIC_LIST ! i) = i + 1" .
qed

lemma resolve_xyz: "mapSurahNameToNumber lc (ascii ''xyz'') = 0"
proof -
  have t: "trim (ascii ''xyz'') = ascii ''xyz''" by (simp add: ascii_def trim_def isSpace_def)
  have n: "normalizeSurahNameForMatch (ascii ''xyz'') = []"
    by (simp add: ascii_def normalizeSurahNameForMatch_def stripSurahPrefix_def norm_eval)
  have a: "map_of ARABIC_NORM_TO_NUM [] = None" "scanArabic [] ARABIC_NORM_TO_NUM = None"
    using arabic_empty getTruthy_map_of[OF arabic_values] by simp_all
  have e: "map_of englishToNum (ascii ''xyz'') = None"
    by (simp add: englishToNum_eq englishPairs_def ascii_def)
  have s: "scanEnglish lc (ascii ''xyz'') englishToNum = None"
    by (simp add: englishToNum_eq englishPairs_def ascii_def toLowerCase_def)
  have ne: "ascii ''xyz'' \<noteq> []" by (simp add: ascii_def)
  show ?thesis unfolding mapSurahNameToNumber_eq t n by (simp add: a e s ne)
qed

lemma resolve_masad:
  "mapSurahNameToNumber lc (ascii ''al-masad'') = 38" "specResolve lc (ascii ''al-masad'') = 111"
proof -
  have a: "map_of ARABIC_NORM_TO_NUM [] = None" "scanArabic [] ARABIC_NORM_TO_NUM = None"
    using arabic_empty getTruthy_map_of[OF arabic_values] by simp_all
  have e: "map_of englishToNum (ascii ''al-masad'') = None"
    using english_masad_exact getTruthy_map_of[OF english_values] by simp
  have n: "normalizeSurahNameForMatch (ascii ''al-masad'') = []"
    using norm_masad unfolding trim_masad .
  have ne: "ascii ''al-masad'' \<noteq> []" by (simp add: ascii_def)
  show "mapSurahNameToNumber lc (ascii ''al-masad'') = 38"
    unfolding mapSurahNameToNumber_eq trim_masad n
    by (simp add: a e english_masad_scan ne)
  show "specResolve lc (ascii ''al-masad'') = 111"
    unfolding specResolve_def Let_def trim_masad n
    by (simp add: a english_masad_ignore)
qed

text \<open>
  C4, as stated, fails at the third strategy: the source looks the trimmed input up in
  the alternate-script table as it is (\<^verbatim>\<open>englishToNum.get(en)\<close>), case-sensitively.
  The input \<open>al-masad\<close> equals the key of ordinal 111 up to case, misses the exact lookup
  and is caught by the substring scan at the earlier key \<open>Sad\<close>, ordinal 38.
\<close>

theorem mapSurahNameToNumber_english_counterexample:
  "\<forall>lc. mapSurahNameToNumber lc (ascii ''al-masad'') = 38 \<and>
        specResolve lc (ascii ''al-masad'') = 111 \<and>
        mapSurahNameToNumber lc (ascii ''al-masad'') \<noteq> specResolve lc (ascii ''al-masad'')"
  by (simp add: resolve_masad)

text \<open>
  C4, amended: the resolver is a total function of a string and tries, in this order:
  the exact lookup of the normalized, prefix-stripped name in the native-script table;
  the substring scan of that table, the first entry in table order whose key occurs in
  the normalized input winning; the exact, case-sensitive lookup of the trimmed input in
  the alternate-script table; the case-insensitive substring scan of that table, again
  first match first; and \<open>0\<close> when all fail (and for the empty string). This holds
  whatever the built-in case mapping does outside ASCII. The native-script
  name of every ordinal, with or without the leading honorific word, resolves to that
  ordinal, and the unrecognized string \<open>xyz\<close> resolves to \<open>0\<close>.
\<close>

theorem mapSurahNameToNumber_strategies:
  "mapSurahNameToNumber lc s =
     (if s = [] then 0
      else case map_of ARABIC_NORM_TO_NUM (normalizeSurahNameForMatch (trim s)) of
             Some n \<Rightarrow> n
           | None \<Rightarrow>
               (case scanArabic (normalizeSurahNameForMatch (trim s)) ARABIC_NORM_TO_NUM of
                  Some n \<Rightarrow> n
                | None \<Rightarrow>
                    (case map_of englishToNum (trim s) of
                       Some v \<Rightarrow> v
                     | None \<Rightarrow>
                         (case scanEnglish lc (trim s) englishToNum of
                            Some v \<Rightarrow> v
                          | None \<Rightarrow> 0)))) \<and>
   (scanArabic nrm ARABIC_NORM_TO_NUM = Some n \<longleftrightarrow>
      (\<exists>pre k post. ARABIC_NORM_TO_NUM = pre @ (k, n) # post \<and>
         (\<exists>u w. nrm = u @ k @ w) \<and>
         (\<forall>p\<in>set pre. \<not> (\<exists>u w. nrm = u @ fst p @ w)))) \<and>
   (scanEnglish lc en englishToNum = Some v \<longleftrightarrow>
      (\<exists>pre k post. englishToNum = pre @ (k, v) # post \<and>
         (\<exists>u w. toLowerCase lc en = u @ toLowerCase lc k @ w) \<and>
         (\<forall>p\<in>set pre. \<not> (\<exists>u w. toLowerCase lc en = u @ toLowerCase lc (fst p) @ w)))) \<and>
   (\<forall>i<114. mapSurahNameToNumber lc (SURAH_ARABIC_LIST ! i) = i + 1 \<and>
      mapSurahNameToNumber lc ([0x0633, 0x0648, 0x0631, 0x0629, 32] @ SURAH_ARABIC_LIST ! i) = i + 1) \<and>
   mapSurahNameToNumber lc (ascii ''xyz'') = 0"
proof -
  note 1 = mapSurahNameToNumber_eq [of lc s]
  note 2 = scanArabic_Some [of nrm ARABIC_NORM_TO_NUM n, unfolded includes_str_iff]
  note 3 = scanEnglish_Some [of lc en englishToNum v, unfolded includes_str_iff]
  have 4: "\<forall>i<114. mapSurahNameToNumber lc (SURAH_ARABIC_LIST ! i) = i + 1 \<and>
      mapSurahNameToNumber lc ([0x0633, 0x0648, 0x0631, 0x0629, 32] @ SURAH_ARABIC_LIST ! i) = i + 1"
    using resolve_names by blast
  from 1 2 3 4 resolve_xyz show ?thesis by blast
qed

theorem mapSurahNameToNumber_strategies_witness:
  "(0 :: nat) < 114 \<and> SURAH_ARABIC_LIST ! 0 = fatiha \<and>
   (\<forall>lc. mapSurahNameToNumber lc fatiha = 1 \<and>
      mapSurahNameToNumber lc ([0x0633, 0x0648, 0x0631, 0x0629, 32] @ fatiha) = 1 \<and>
      mapSurahNameToNumber lc (ascii ''xyz'') = 0)"
proof -
  have h: "(0 :: nat) < 114" by simp
  have f: "SURAH_ARABIC_LIST ! 0 = fatiha" by (simp add: SURAH_ARABIC_LIST_def fatiha_def)
  have a: "mapSurahNameToNumber lc fatiha = 1 \<and>
      mapSurahNameToNumber lc ([0x0633, 0x0648, 0x0631, 0x0629, 32] @ fatiha) = 1 \<and>
      mapSurahNameToNumber lc (ascii ''xyz'') = 0" for lc
  proof -
    note th = mapSurahNameToNumber_strategies [of lc]
    from th h
    have "mapSurahNameToNumber lc (SURAH_ARABIC_LIST ! 0) = 0 + 1 \<and>
      mapSurahNameToNumber lc ([0x0633, 0x0648, 0x0631, 0x0629, 32] @ SURAH_ARABIC_LIST ! 0) = 0 + 1"
      by blast
    then have 1: "mapSurahNameToNumber lc fatiha = 1"
      and 2: "mapSurahNameToNumber lc ([0x0633, 0x0648, 0x0631, 0x0629, 32] @ fatiha) = 1"
      unfolding f by simp_all
    from th have 3: "mapSurahNameToNumber lc (ascii ''xyz'') = 0" by blast
    from 1 2 3 show ?thesis by blast
  qed
  from h f a show ?thesis by blast
qed

end
